theory Spec2Isabelle
  imports Main "HOL-Library.Char_ord" "HOL-Library.List_Lexorder" "HOL-Library.Multiset"
begin

section \<open>Data model (parser/record.go)\<close>

text \<open>
  \<^verbatim>\<open>type SortMode string\<close> with the three constants of the source. Every string is a
  value of the Go type, so the sort mode of a record is kept as a string.
\<close>

type_synonym SortMode = string

definition NoSort :: SortMode where "NoSort = ''nosort''"
definition Rowsort :: SortMode where "Rowsort = ''rowsort''"
definition ValueSort :: SortMode where "ValueSort = ''valuesort''"

text \<open>\<^verbatim>\<open>type RecordType int\<close>; \<open>Statement\<close> is the zero value.\<close>

datatype RecordType = Statement | Query | Halt

record Condition =
  isOnly :: bool
  isSkip :: bool
  engine :: string

text \<open>
  The struct \<^verbatim>\<open>Record\<close>. The source holds \<^verbatim>\<open>[]*Condition\<close>; the parser only ever
  appends pointers to fresh structs, so the list of conditions is a list of values.
\<close>

record Record =
  recordType :: RecordType
  expectError :: bool
  conditions :: "Condition list"
  schema :: string
  sortMode :: SortMode
  query :: string
  lineNum :: int
  result :: "string list"
  label :: string
  hashThreshold :: int

section \<open>Text helpers of the Go library, as the parser uses them\<close>

text \<open>
  Go strings are byte strings; \<^typ>\<open>string\<close> is a list of 8-bit characters, and a
  non-ASCII code point is the sequence of its UTF-8 bytes.
\<close>

definition HasPrefix :: "string \<Rightarrow> string \<Rightarrow> bool" where
  "HasPrefix s p = (take (length p) s = p)"

definition HasSuffix :: "string \<Rightarrow> string \<Rightarrow> bool" where
  "HasSuffix s p = (length p \<le> length s \<and> drop (length s - length p) s = p)"

text \<open>
  The white space of \<^verbatim>\<open>strings.TrimSpace\<close> and \<^verbatim>\<open>strings.Fields\<close> is that of
  \<^verbatim>\<open>unicode.IsSpace\<close>: space, tab, line feed, vertical tab, form feed, carriage return,
  U+0085, U+00A0, U+1680, U+2000 to U+200A, U+2028, U+2029, U+202F, U+205F and U+3000.
  \<open>spaceRunes\<close> lists their UTF-8 encodings. Both functions decode the string rune by
  rune; a byte that starts no valid encoding is the rune U+FFFD of width one, which is no
  white space. The first byte of an encoding is never a continuation byte and Go accepts
  the shortest encoding of a code point only, so the rune at a position is white space
  exactly if one of the encodings is a prefix of the text there, and the last rune of a
  string is white space exactly if one of the encodings is a suffix of it. No encoding is
  a prefix or a suffix of another one. \<open>spaceWidth\<close> is the width of the white space
  at the start of a string and \<open>trailingSpaceWidth\<close> at its end, 0 if there is none.
\<close>

definition spaceRunes :: "string list" where
  "spaceRunes =
     [[CHR 0x20], [CHR 0x09], [CHR 0x0A], [CHR 0x0B], [CHR 0x0C], [CHR 0x0D],
      [CHR 0xC2, CHR 0x85], [CHR 0xC2, CHR 0xA0],
      [CHR 0xE1, CHR 0x9A, CHR 0x80],
      [CHR 0xE2, CHR 0x80, CHR 0x80], [CHR 0xE2, CHR 0x80, CHR 0x81],
      [CHR 0xE2, CHR 0x80, CHR 0x82], [CHR 0xE2, CHR 0x80, CHR 0x83],
      [CHR 0xE2, CHR 0x80, CHR 0x84], [CHR 0xE2, CHR 0x80, CHR 0x85],
      [CHR 0xE2, CHR 0x80, CHR 0x86], [CHR 0xE2, CHR 0x80, CHR 0x87],
      [CHR 0xE2, CHR 0x80, CHR 0x88], [CHR 0xE2, CHR 0x80, CHR 0x89],
      [CHR 0xE2, CHR 0x80, CHR 0x8A],
      [CHR 0xE2, CHR 0x80, CHR 0xA8], [CHR 0xE2, CHR 0x80, CHR 0xA9],
      [CHR 0xE2, CHR 0x80, CHR 0xAF],
      [CHR 0xE2, CHR 0x81, CHR 0x9F],
      [CHR 0xE3, CHR 0x80, CHR 0x80]]"

definition spaceWidth :: "string \<Rightarrow> nat" where
  "spaceWidth s =
     (case find (HasPrefix s) spaceRunes of None \<Rightarrow> 0 | Some e \<Rightarrow> length e)"

definition trailingSpaceWidth :: "string \<Rightarrow> nat" where
  "trailingSpaceWidth s =
     (case find (HasSuffix s) spaceRunes of None \<Rightarrow> 0 | Some e \<Rightarrow> length e)"

lemma spaceRunes_nonempty: "e \<in> set spaceRunes \<Longrightarrow> e \<noteq> []"
  by (auto simp: spaceRunes_def)

lemma spaceRunes_no_hash: "e \<in> set spaceRunes \<Longrightarrow> CHR ''#'' \<notin> set e"
  by (auto simp: spaceRunes_def)

lemma spaceWidth_cases:
  obtains "spaceWidth s = 0" "\<forall>e\<in>set spaceRunes. \<not> HasPrefix s e"
  | e where "e \<in> set spaceRunes" "HasPrefix s e" "spaceWidth s = length e" "e \<noteq> []"
proof (cases "find (HasPrefix s) spaceRunes")
  case None
  hence "spaceWidth s = 0" by (simp add: spaceWidth_def)
  moreover from None have "\<forall>e\<in>set spaceRunes. \<not> HasPrefix s e"
    by (simp add: find_None_iff)
  ultimately show ?thesis by (rule that(1))
next
  case (Some e)
  then have "e \<in> set spaceRunes" "HasPrefix s e"
    by (auto simp: find_Some_iff)
  with Some show ?thesis using that(2) spaceRunes_nonempty by (auto simp: spaceWidth_def)
qed

lemma trailingSpaceWidth_cases:
  obtains "trailingSpaceWidth s = 0"
  | e where "e \<in> set spaceRunes" "HasSuffix s e" "trailingSpaceWidth s = length e" "e \<noteq> []"
proof (cases "find (HasSuffix s) spaceRunes")
  case None
  then show ?thesis using that(1) by (auto simp: trailingSpaceWidth_def)
next
  case (Some e)
  then have "e \<in> set spaceRunes" "HasSuffix s e"
    by (auto simp: find_Some_iff)
  with Some show ?thesis using that(2) spaceRunes_nonempty by (auto simp: trailingSpaceWidth_def)
qed

lemma spaceWidth_le: "spaceWidth s \<le> length s"
proof (cases s rule: spaceWidth_cases)
  case 1
  then show ?thesis by simp
next
  case (2 e)
  from 2(2) have "length e \<le> length s"
    unfolding HasPrefix_def by (metis length_take min.cobounded1)
  with 2 show ?thesis by simp
qed

lemma spaceWidth_pos_nonempty: "0 < spaceWidth s \<Longrightarrow> s \<noteq> []"
  using spaceWidth_le [of s] by auto

lemma trailingSpaceWidth_le: "trailingSpaceWidth s \<le> length s"
  by (cases s rule: trailingSpaceWidth_cases) (auto simp: HasSuffix_def)

text \<open>
  \<^verbatim>\<open>strings.TrimSpace\<close>: the white space at the start is cut off rune by rune, then the
  white space at the end (\<^verbatim>\<open>TrimLeftFunc\<close> and \<^verbatim>\<open>TrimRightFunc\<close> with
  \<^verbatim>\<open>unicode.IsSpace\<close>; the loops over ASCII bytes that the library runs first cut off the
  same runes).
\<close>

function trimLeft :: "string \<Rightarrow> string" where
  "trimLeft s = (if 0 < spaceWidth s then trimLeft (drop (spaceWidth s) s) else s)"
  by pat_completeness auto
termination
proof (relation "measure length")
  fix s :: string
  assume "0 < spaceWidth s"
  with spaceWidth_le [of s] show "(drop (spaceWidth s) s, s) \<in> measure length" by auto
qed simp

function trimRight :: "string \<Rightarrow> string" where
  "trimRight s =
     (if 0 < trailingSpaceWidth s then trimRight (take (length s - trailingSpaceWidth s) s)
      else s)"
  by pat_completeness auto
termination
proof (relation "measure length")
  fix s :: string
  assume "0 < trailingSpaceWidth s"
  with trailingSpaceWidth_le [of s]
  show "(take (length s - trailingSpaceWidth s) s, s) \<in> measure length" by auto
qed simp

definition TrimSpace :: "string \<Rightarrow> string" where
  "TrimSpace s = trimRight (trimLeft s)"

definition isBlankLine :: "string \<Rightarrow> bool" where
  "isBlankLine line = (length (TrimSpace line) = 0)"

text \<open>
  \<^verbatim>\<open>strings.Fields\<close>: the maximal runs of runes that are no white space, in order.
  \<open>cur\<close> is the field being read; a rune that is no white space is taken over byte by
  byte, as none of its later bytes starts the encoding of a white space.
\<close>

function fieldsFrom :: "string \<Rightarrow> string \<Rightarrow> string list" where
  "fieldsFrom cur [] = (if cur = [] then [] else [cur])"
| "fieldsFrom cur (c # cs) =
     (if 0 < spaceWidth (c # cs) then
        (if cur = [] then fieldsFrom [] (drop (spaceWidth (c # cs)) (c # cs))
         else cur # fieldsFrom [] (drop (spaceWidth (c # cs)) (c # cs)))
      else fieldsFrom (cur @ [c]) cs)"
  by pat_completeness auto
termination
  by (relation "measure (\<lambda>(cur, s). length s)") auto

definition Fields :: "string \<Rightarrow> string list" where
  "Fields s = fieldsFrom [] s"

text \<open>
  \<^verbatim>\<open>commentRegex.ReplaceAllString(line, "$1")\<close> with \<^verbatim>\<open>commentRegex = ([^#]*)#?.*\<close>.
  A line delivered by the scanner holds no line feed, so the first match spans the whole
  line and its first group is the text before the first \<^verbatim>\<open>#\<close>; the empty match at the
  end of the line abuts it and is ignored.
\<close>

definition removeComments :: "string \<Rightarrow> string" where
  "removeComments line = takeWhile (\<lambda>c. c \<noteq> CHR ''#'') line"

text \<open>
  \<^verbatim>\<open>strconv.Atoi\<close> on a 64-bit platform, its error dropped as both call sites drop it
  (\<^verbatim>\<open>x, _ = strconv.Atoi(s)\<close>). The digits are read as \<^verbatim>\<open>ParseUint\<close> reads them, one by
  one: a character that is no digit is a syntax error, and a number past 64 bits is a
  range error as soon as it is reached. A syntax error gives 0 and a range error the end
  of the \<^verbatim>\<open>int\<close> range on the side of the sign, as does a number that fits 64 bits but not
  the \<^verbatim>\<open>int\<close> range.
\<close>

definition isDigit :: "char \<Rightarrow> bool" where
  "isDigit c = (CHR ''0'' \<le> c \<and> c \<le> CHR ''9'')"

datatype uintResult = Value int | SyntaxError | RangeError

fun parseUint :: "int \<Rightarrow> string \<Rightarrow> uintResult" where
  "parseUint n [] = Value n"
| "parseUint n (c # cs) =
     (if \<not> isDigit c then SyntaxError
      else if n \<ge> (2 ^ 64 - 1) div 10 + 1 then RangeError
      else if n * 10 + (of_char c - 48) > 2 ^ 64 - 1 then RangeError
      else parseUint (n * 10 + (of_char c - 48)) cs)"

definition Atoi :: "string \<Rightarrow> int" where
  "Atoi s =
     (let neg = (s \<noteq> [] \<and> hd s = CHR ''-'');
          ds = (if s \<noteq> [] \<and> (hd s = CHR ''-'' \<or> hd s = CHR ''+'') then tl s else s)
      in if ds = [] then 0
         else case parseUint 0 ds of
                SyntaxError \<Rightarrow> 0
              | RangeError \<Rightarrow> (if neg then - (2 ^ 63) else 2 ^ 63 - 1)
              | Value un \<Rightarrow>
                  if \<not> neg \<and> un \<ge> 2 ^ 63 then 2 ^ 63 - 1
                  else if neg \<and> un > 2 ^ 63 then - (2 ^ 63)
                  else if neg then - un else un)"

section \<open>The line scanner\<close>

text \<open>
  Modelled from the spec: the type \<^verbatim>\<open>LineScanner\<close> (a \<^verbatim>\<open>bufio.Scanner\<close> and the field
  \<^verbatim>\<open>LineNum\<close>) is declared in a file that is not among the sources. Following section
  4.1 of the specification, a successful \<^verbatim>\<open>Scan\<close> consumes the next line and adds one to
  \<^verbatim>\<open>LineNum\<close>, the 1-based count of the lines consumed so far; no line is read twice.
  \<open>pending\<close> holds the lines not yet consumed and \<open>readErr\<close> what \<^verbatim>\<open>Err()\<close> reports once
  \<^verbatim>\<open>Scan\<close> has returned false (\<open>None\<close> at a clean end of input).
\<close>

record LineScanner =
  pending :: "string list"
  LineNum :: int
  readErr :: "string option"

section \<open>The directive parser (parser/record.go, second part)\<close>

definition Separator :: string where "Separator = ''----''"
definition defaultHashThreshold :: int where "defaultHashThreshold = 8"
definition hashThresholdUnset :: int where "hashThresholdUnset = - 1"

datatype recordParseState = stateStart | stateStatement | stateQuery | stateResults

text \<open>
  What a call can end in besides a record: \<^verbatim>\<open>io.EOF\<close>, the scanner's error, the two
  errors \<^verbatim>\<open>parseRecord\<close> builds, and a run-time panic (an index out of range).
\<close>

datatype error =
    EOF
  | ScanError string
  | UnexpectedToken string
  | UnhandledStatement string int
  | Panic string

text \<open>The zero-valued record of \<^verbatim>\<open>&Record{hashThreshold: hashThresholdUnset}\<close>.\<close>

definition newRecord :: Record where
  "newRecord = \<lparr>recordType = Statement, expectError = False, conditions = [],
                 schema = [], sortMode = [], query = [], lineNum = 0, result = [],
                 label = [], hashThreshold = hashThresholdUnset\<rparr>"

text \<open>
  One pass through the body of the \<^verbatim>\<open>for scanner.Scan()\<close> loop of \<^verbatim>\<open>parseRecord\<close>, for the
  line just read and the value \<open>n\<close> of \<^verbatim>\<open>scanner.LineNum\<close> after reading it. The pass
  either goes on with the next line (\<^verbatim>\<open>continue\<close>, or the end of the \<^verbatim>\<open>switch\<close>), with the
  record, the state and the contents of \<^verbatim>\<open>queryBuilder\<close>, or returns from \<^verbatim>\<open>parseRecord\<close>.
\<close>

datatype step = Continue Record recordParseState string | Return "error + Record"

definition indexPanic :: step where
  "indexPanic = Return (Inl (Panic ''index out of range''))"

definition setLineNum :: "Record \<Rightarrow> int \<Rightarrow> Record" where
  "setLineNum record n = (if lineNum record = 0 then record\<lparr>lineNum := n\<rparr> else record)"

definition parseStart :: "string list \<Rightarrow> int \<Rightarrow> Record \<Rightarrow> string \<Rightarrow> step" where
  "parseStart flds n record qb =
     (case flds of
        [] \<Rightarrow> indexPanic
      | f0 # fs \<Rightarrow>
          if f0 = ''halt'' then Return (Inr (record\<lparr>recordType := Halt, lineNum := n\<rparr>))
          else if f0 = ''skipif'' \<or> f0 = ''onlyif'' then
            (case fs of
               [] \<Rightarrow> indexPanic
             | f1 # _ \<Rightarrow>
                 Continue (record\<lparr>conditions := conditions record @
                             [\<lparr>isOnly = (f0 = ''onlyif''), isSkip = (f0 = ''skipif''),
                               engine = f1\<rparr>]\<rparr>) stateStart qb)
          else if f0 = ''hash-threshold'' then
            (case fs of
               [] \<Rightarrow> indexPanic
             | f1 # _ \<Rightarrow> Continue (record\<lparr>hashThreshold := Atoi f1\<rparr>) stateStart qb)
          else if f0 = ''statement'' then
            (case fs of
               [] \<Rightarrow> indexPanic
             | f1 # _ \<Rightarrow>
                 if f1 = ''ok'' then
                   Continue (record\<lparr>recordType := Statement, expectError := False\<rparr>)
                     stateStatement qb
                 else if f1 = ''error'' then
                   Continue (record\<lparr>recordType := Statement, expectError := True\<rparr>)
                     stateStatement qb
                 else Return (Inl (UnexpectedToken f1)))
          else if f0 = ''query'' then
            (case fs of
               [] \<Rightarrow> indexPanic
             | f1 # _ \<Rightarrow>
                 let r1 = record\<lparr>recordType := Query, schema := f1\<rparr>;
                     r2 = (if length flds > 2 then r1\<lparr>sortMode := flds ! 2\<rparr> else r1);
                     r3 = (if length flds > 3 then r2\<lparr>label := flds ! 3\<rparr> else r2)
                 in Continue r3 stateQuery qb)
          else Return (Inl (UnhandledStatement f0 n)))"

definition parseLine ::
  "string \<Rightarrow> int \<Rightarrow> Record \<Rightarrow> recordParseState \<Rightarrow> string \<Rightarrow> step" where
  "parseLine line n record state qb =
     (let commentsRemoved = removeComments line;
          flds = Fields commentsRemoved
      in if HasPrefix line ''#'' then Continue record state qb
         else case state of
           stateStart \<Rightarrow>
             if isBlankLine line then Continue record state qb
             else parseStart flds n record qb
         | stateStatement \<Rightarrow>
             if isBlankLine line then Return (Inr (record\<lparr>query := qb\<rparr>))
             else Continue (setLineNum record n) state (qb @ commentsRemoved)
         | stateQuery \<Rightarrow>
             if length flds = 1 \<and> flds ! 0 = Separator then
               Continue ((setLineNum record n)\<lparr>query := qb\<rparr>) stateResults
                 (qb @ commentsRemoved)
             else if isBlankLine line then Return (Inr ((setLineNum record n)\<lparr>query := qb\<rparr>))
             else Continue (setLineNum record n) state (qb @ commentsRemoved)
         | stateResults \<Rightarrow>
             if isBlankLine line then Return (Inr record)
             else Continue (record\<lparr>result := result record @ [commentsRemoved]\<rparr>) state qb)"

text \<open>
  What \<^verbatim>\<open>parseRecord\<close> does once \<^verbatim>\<open>Scan\<close> has returned false: the scanner's error, else
  \<^verbatim>\<open>io.EOF\<close> when no canonical line was set, else the record, its query text taken from
  the builder in \<^verbatim>\<open>stateStatement\<close> only.
\<close>

definition parseEnd ::
  "string option \<Rightarrow> Record \<Rightarrow> recordParseState \<Rightarrow> string \<Rightarrow> error + Record" where
  "parseEnd err record state qb =
     (case err of
        Some e \<Rightarrow> Inl (ScanError e)
      | None \<Rightarrow>
          if lineNum record = 0 then Inl EOF
          else (case state of
                  stateStatement \<Rightarrow> Inr (record\<lparr>query := qb\<rparr>)
                | _ \<Rightarrow> Inr record))"

text \<open>
  The loop itself, over the lines not yet consumed; \<open>n\<close> is \<^verbatim>\<open>scanner.LineNum\<close>. It
  returns the result of \<^verbatim>\<open>parseRecord\<close> with the lines left in the scanner and its line
  counter.
\<close>

fun parseLoop ::
  "string list \<Rightarrow> int \<Rightarrow> string option \<Rightarrow> Record \<Rightarrow> recordParseState \<Rightarrow> string
     \<Rightarrow> (error + Record) \<times> string list \<times> int" where
  "parseLoop [] n err record state qb = (parseEnd err record state qb, [], n)"
| "parseLoop (line # rest) n err record state qb =
     (case parseLine line (n + 1) record state qb of
        Continue record' state' qb' \<Rightarrow> parseLoop rest (n + 1) err record' state' qb'
      | Return res \<Rightarrow> (res, rest, n + 1))"

definition parseRecord :: "LineScanner \<Rightarrow> (error + Record) \<times> LineScanner" where
  "parseRecord scanner =
     (case parseLoop (pending scanner) (LineNum scanner) (readErr scanner)
             newRecord stateStart [] of
        (res, rest, n) \<Rightarrow> (res, scanner\<lparr>pending := rest, LineNum := n\<rparr>))"

lemma parseLoop_consumes:
  "parseLoop ls n err record state qb = (res, rest, n') \<Longrightarrow> length rest \<le> length ls"
proof (induction ls arbitrary: n "record" state qb)
  case Nil
  then show ?case by simp
next
  case (Cons l ls)
  show ?case
  proof (cases "parseLine l (n + 1) record state qb")
    case (Continue record' state' qb')
    with Cons.prems have "parseLoop ls (n + 1) err record' state' qb' = (res, rest, n')"
      by simp
    from Cons.IH [OF this] show ?thesis by simp
  next
    case (Return r)
    with Cons.prems show ?thesis by simp
  qed
qed

lemma parseLoop_progress:
  assumes "parseLoop ls n err record state qb = (Inr r, rest, n')"
    and "lineNum record = 0"
  shows "length rest < length ls"
proof (cases ls)
  case Nil
  with assms show ?thesis by (simp add: parseEnd_def split: option.splits)
next
  case (Cons l ls')
  show ?thesis
  proof (cases "parseLine l (n + 1) record state qb")
    case (Continue record' state' qb')
    with assms(1) Cons
    have "parseLoop ls' (n + 1) err record' state' qb' = (Inr r, rest, n')" by simp
    from parseLoop_consumes [OF this] Cons show ?thesis by simp
  next
    case (Return res)
    with assms(1) Cons show ?thesis by simp
  qed
qed

lemma parseRecord_progress:
  assumes "parseRecord scanner = (Inr r, scanner')"
  shows "length (pending scanner') < length (pending scanner)"
proof -
  obtain res rest n' where
    pl: "parseLoop (pending scanner) (LineNum scanner) (readErr scanner) newRecord stateStart []
           = (res, rest, n')"
    by (cases "parseLoop (pending scanner) (LineNum scanner) (readErr scanner)
                 newRecord stateStart []") auto
  with assms have "res = Inr r" and "pending scanner' = rest"
    by (auto simp: parseRecord_def)
  with parseLoop_progress [of "pending scanner" "LineNum scanner" "readErr scanner"
         newRecord stateStart "[]" r rest n'] pl
  show ?thesis by (simp add: newRecord_def)
qed

text \<open>
  The threshold a record leaves \<^verbatim>\<open>ParseTestFile\<close> with: its own when a directive set it,
  else the previous record's, else the default.
\<close>

definition inheritThreshold :: "Record option \<Rightarrow> Record \<Rightarrow> Record" where
  "inheritThreshold prevRecord record =
     (if hashThreshold record = hashThresholdUnset then
        (case prevRecord of
           Some p \<Rightarrow> record\<lparr>hashThreshold := hashThreshold p\<rparr>
         | None \<Rightarrow> record\<lparr>hashThreshold := defaultHashThreshold\<rparr>)
      else record)"

text \<open>The \<^verbatim>\<open>for\<close> loop of \<^verbatim>\<open>ParseTestFile\<close>.\<close>

function parseRecords ::
  "LineScanner \<Rightarrow> Record option \<Rightarrow> Record list \<Rightarrow> error + Record list" where
  "parseRecords scanner prevRecord records =
     (case parseRecord scanner of
        (Inl e, scanner') \<Rightarrow> (if e = EOF then Inr records else Inl e)
      | (Inr record, scanner') \<Rightarrow>
          parseRecords scanner' (Some (inheritThreshold prevRecord record))
            (records @ [inheritThreshold prevRecord record]))"
  by pat_completeness auto
termination
  by (relation "measure (\<lambda>(scanner, prevRecord, records). length (pending scanner))")
     (auto dest: parseRecord_progress [OF sym])

text \<open>
  \<^verbatim>\<open>ParseTestFile\<close>, given what the scanner delivers for the file (its lines, and the
  error the read stops with, if any) in place of the file's name.
\<close>

definition ParseTestFile :: "string list \<Rightarrow> string option \<Rightarrow> error + Record list" where
  "ParseTestFile lines err =
     parseRecords \<lparr>pending = lines, LineNum = 0, readErr = err\<rparr> None []"

section \<open>Condition evaluation\<close>

text \<open>The \<^verbatim>\<open>for ... range r.conditions\<close> loop of \<^verbatim>\<open>ShouldExecuteForEngine\<close>.\<close>

fun skipLoop :: "Condition list \<Rightarrow> string \<Rightarrow> bool" where
  "skipLoop [] e = True"
| "skipLoop (c # cs) e = (if isSkip c \<and> engine c = e then False else skipLoop cs e)"

definition ShouldExecuteForEngine :: "Record \<Rightarrow> string \<Rightarrow> bool" where
  "ShouldExecuteForEngine r e =
     (if length (conditions r) = 1 \<and> isOnly (conditions r ! 0)
      then engine (conditions r ! 0) = e
      else skipLoop (conditions r) e)"

section \<open>Record methods (parser/record.go, first part)\<close>

text \<open>
  \<^verbatim>\<open>hashRegex = (\d+) values hashing to ([0-9a-f]+)\<close>. A match that starts at the
  first character of \<open>s\<close>: the longest run of digits (a shorter one is followed by a
  digit, not by the space the pattern needs), the fixed text, the longest run of
  hexadecimal digits. The result holds the two groups and the text after the match.
\<close>

definition isHex :: "char \<Rightarrow> bool" where
  "isHex c = (isDigit c \<or> (CHR ''a'' \<le> c \<and> c \<le> CHR ''f''))"

definition hashingTo :: string where
  "hashingTo = '' values hashing to ''"

definition hashMatchAt :: "string \<Rightarrow> (string \<times> string \<times> string) option" where
  "hashMatchAt s =
     (let d = takeWhile isDigit s; r = dropWhile isDigit s
      in if d \<noteq> [] \<and> HasPrefix r hashingTo then
           (let r' = drop (length hashingTo) r; h = takeWhile isHex r'
            in if h \<noteq> [] then Some (d, h, dropWhile isHex r') else None)
         else None)"

text \<open>\<^verbatim>\<open>hashRegex.MatchString\<close>: the pattern is not anchored, a match may start anywhere.\<close>

fun hashMatchString :: "string \<Rightarrow> bool" where
  "hashMatchString [] = False"
| "hashMatchString (c # cs) = (hashMatchAt (c # cs) \<noteq> None \<or> hashMatchString cs)"

lemma hashMatchAt_shorter:
  "hashMatchAt s = Some (g1, g2, rest) \<Longrightarrow> length rest < length s"
proof -
  assume a: "hashMatchAt s = Some (g1, g2, rest)"
  let ?r = "dropWhile isDigit s"
  from a have d: "takeWhile isDigit s \<noteq> []" and r: "rest = dropWhile isHex (drop (length hashingTo) ?r)"
    by (auto simp: hashMatchAt_def Let_def split: if_splits)
  have "length rest \<le> length ?r" unfolding r
    by (metis length_drop diff_le_self le_trans length_dropWhile_le)
  moreover have "length ?r < length s"
    using d by (metis takeWhile_dropWhile_id length_append length_greater_0_conv
        less_add_same_cancel2 add.commute)
  ultimately show ?thesis by simp
qed

text \<open>
  \<^verbatim>\<open>hashRegex.ReplaceAllString(s, "$1")\<close> (\<open>first = True\<close>) and
  \<^verbatim>\<open>hashRegex.ReplaceAllString(s, "$2")\<close> (\<open>first = False\<close>): every match, leftmost
  first and not overlapping, is replaced by its group; the text between the matches stays.
\<close>

function hashReplaceAll :: "bool \<Rightarrow> string \<Rightarrow> string" where
  "hashReplaceAll first [] = []"
| "hashReplaceAll first (c # cs) =
     (case hashMatchAt (c # cs) of
        Some (g1, g2, rest) \<Rightarrow> (if first then g1 else g2) @ hashReplaceAll first rest
      | None \<Rightarrow> c # hashReplaceAll first cs)"
  by pat_completeness auto
termination
  by (relation "measure (\<lambda>(first, s). length s)") (auto dest: hashMatchAt_shorter)

definition IsHashResult :: "Record \<Rightarrow> bool" where
  "IsHashResult r = (length (result r) = 1 \<and> hashMatchString (result r ! 0))"

text \<open>A panic is the message it carries; \<open>Inl\<close> is a panic.\<close>

type_synonym 'a panics = "string + 'a"

definition HashResult :: "Record \<Rightarrow> string panics" where
  "HashResult r =
     (case result r of
        [] \<Rightarrow> Inl ''index out of range''
      | s # _ \<Rightarrow> Inr (hashReplaceAll False s))"

definition NumResults :: "Record \<Rightarrow> int panics" where
  "NumResults r =
     (if recordType r \<noteq> Query then Inl ''Only query records have results''
      else if IsHashResult r then Inr (Atoi (hashReplaceAll True (result r ! 0)))
      else Inr (int (length (result r))))"

definition NumCols :: "Record \<Rightarrow> nat panics" where
  "NumCols r =
     (if recordType r \<noteq> Query then Inl ''Only query records have results''
      else Inr (length (schema r)))"

section \<open>Sorting the results\<close>

text \<open>\<^verbatim>\<open>rowSorter.toRow\<close> for the rows \<open>0 .. n - 1\<close> of width \<open>k\<close>.\<close>

fun toRows :: "nat \<Rightarrow> nat \<Rightarrow> string list \<Rightarrow> string list list" where
  "toRows k 0 vs = []"
| "toRows k (Suc n) vs = take k vs # toRows k n (drop k vs)"

text \<open>
  \<^verbatim>\<open>rowSorter.Less\<close> on two rows: column by column, by the order of Go strings (byte by
  byte). The rows of a sorter have the same width, so the second row never ends first.
\<close>

fun Less :: "string list \<Rightarrow> string list \<Rightarrow> bool" where
  "Less [] rowJ = False"
| "Less (a # rowI) [] = False"
| "Less (a # rowI) (b # rowJ) =
     (if a < b then True else if a > b then False else Less rowI rowJ)"

text \<open>
  \<^verbatim>\<open>sort.Sort\<close> and \<^verbatim>\<open>sort.Strings\<close> put the elements in ascending order. Go's sort is not
  stable; two rows that \<open>Less\<close> does not order are equal column by column, and so are two
  such strings, so every sorting algorithm gives the sequence insertion sort gives.
\<close>

fun insertBy :: "('a \<Rightarrow> 'a \<Rightarrow> bool) \<Rightarrow> 'a \<Rightarrow> 'a list \<Rightarrow> 'a list" where
  "insertBy lt x [] = [x]"
| "insertBy lt x (y # ys) = (if lt x y then x # y # ys else y # insertBy lt x ys)"

definition sortBy :: "('a \<Rightarrow> 'a \<Rightarrow> bool) \<Rightarrow> 'a list \<Rightarrow> 'a list" where
  "sortBy lt xs = foldr (insertBy lt) xs []"

text \<open>
  \<^verbatim>\<open>SortResults\<close> sorts the slice it is given in place and returns that same slice. The
  model returns the contents of the slice after the call, which are also the contents of
  every other slice over the same array, the caller's included. In \<^verbatim>\<open>Rowsort\<close> mode
  \<^verbatim>\<open>sort.Sort\<close> first calls \<^verbatim>\<open>Len\<close>, which panics when the record is no query
  (\<^verbatim>\<open>NumCols\<close>) or its schema is empty (division by zero); the values after the last full
  row stay where they are.
\<close>

definition SortResults :: "Record \<Rightarrow> string list \<Rightarrow> string list panics" where
  "SortResults r results =
     (if sortMode r = NoSort then Inr results
      else if sortMode r = Rowsort then
        (case NumCols r of
           Inl p \<Rightarrow> Inl p
         | Inr k \<Rightarrow>
             if k = 0 then Inl ''integer divide by zero''
             else let n = length results div k
                  in Inr (concat (sortBy Less (toRows k n results)) @ drop (n * k) results))
      else if sortMode r = ValueSort then Inr (sortBy (<) results)
      else Inl (''Uncrecognized sort mode '' @ sortMode r))"

section \<open>The run loop (go/logictest/runner.go)\<close>

text \<open>
  Modelled from the spec: the interface \<^verbatim>\<open>Harness\<close> is declared in a file that is not
  among the sources. Section 6 of the specification gives its four operations. The
  backend is a state \<open>'h\<close> that each call may change; a call may also panic (\<open>Inl\<close>).
  A Go \<^verbatim>\<open>error\<close> is its message, \<open>None\<close> is \<^verbatim>\<open>nil\<close>.
\<close>

type_synonym goerror = "string option"

record 'h Harness =
  EngineStr :: string
  Init :: "'h \<Rightarrow> goerror \<times> 'h"
  ExecuteStatement :: "string \<Rightarrow> 'h \<Rightarrow> goerror panics \<times> 'h"
  ExecuteQuery :: "string \<Rightarrow> 'h \<Rightarrow> (string \<times> string list \<times> goerror) panics \<times> 'h"

text \<open>
  What \<^verbatim>\<open>logSuccess\<close>, \<^verbatim>\<open>logSkip\<close> and \<^verbatim>\<open>logFailure\<close> print, one line per call. Of the prefix
  of a line (time, file, line number, query) the model keeps the line number of
  \<^verbatim>\<open>currRecord\<close>, which \<^verbatim>\<open>executeRecord\<close> sets to its record on entry; a failure keeps the
  arguments of its message.
\<close>

datatype message =
    Ok
  | Skipped
  | ExpectedError
  | UnexpectedError string
  | SchemasDiffer string string
  | IncorrectNumber int int
  | IncorrectResult nat string string
  | HashesDiffer string string
  | CaughtPanic string

record 'h world =
  backend :: 'h
  printed :: "(int \<times> message) list"

definition logLine :: "Record \<Rightarrow> message \<Rightarrow> 'h world \<Rightarrow> 'h world" where
  "logLine r m w = w\<lparr>printed := printed w @ [(lineNum r, m)]\<rparr>"

text \<open>
  \<^verbatim>\<open>hashResults\<close>: the MD5 digest, in lower-case hexadecimal, of the values, a line feed
  after each. The digest function is a parameter of the model.
\<close>

definition hashResults :: "(string \<Rightarrow> string) \<Rightarrow> string list \<Rightarrow> string" where
  "hashResults md5hex results = md5hex (concat (map (\<lambda>r. r @ [CHR 0x0A]) results))"

text \<open>\<^verbatim>\<open>allIs = ^I+$\<close> and \<^verbatim>\<open>isAndRs = ^[IR]+$\<close>.\<close>

definition allIs :: "string \<Rightarrow> bool" where
  "allIs s = (s \<noteq> [] \<and> list_all (\<lambda>c. c = CHR ''I'') s)"

definition isAndRs :: "string \<Rightarrow> bool" where
  "isAndRs s = (s \<noteq> [] \<and> list_all (\<lambda>c. c = CHR ''I'' \<or> c = CHR ''R'') s)"

definition verifySchema :: "Record \<Rightarrow> string \<Rightarrow> 'h world \<Rightarrow> bool panics \<times> 'h world" where
  "verifySchema r schemaStr w =
     (if schemaStr \<noteq> schema r then
        (if length schemaStr = length (schema r) then
           (case NumResults r of
              Inl p \<Rightarrow> (Inl p, w)
            | Inr n \<Rightarrow>
                if n = 0 \<and> allIs (schema r) \<and> isAndRs schemaStr then (Inr True, w)
                else (Inr False, logLine r (SchemasDiffer (schema r) schemaStr) w))
         else (Inr False, logLine r (SchemasDiffer (schema r) schemaStr) w))
      else (Inr True, w))"

text \<open>
  The loop of \<^verbatim>\<open>verifyRows\<close> from position \<open>i\<close> on: the first position where the expected
  and the observed value differ, if any.
\<close>

fun firstDifference ::
  "nat \<Rightarrow> string list \<Rightarrow> string list \<Rightarrow> (nat \<times> string \<times> string) option panics" where
  "firstDifference i [] results = Inr None"
| "firstDifference i (e # expected) results =
     (if i < length results then
        (if e \<noteq> results ! i then Inr (Some (i, e, results ! i))
         else firstDifference (Suc i) expected results)
      else Inl ''index out of range'')"

text \<open>
  \<^verbatim>\<open>verifyRows\<close>, \<^verbatim>\<open>verifyHash\<close> and \<^verbatim>\<open>verifyResults\<close> return nothing in Go. The model
  returns the contents of the slice \<^verbatim>\<open>results\<close> they were called with as it is when they
  return: \<^verbatim>\<open>SortResults\<close> has sorted it in place.
\<close>

definition verifyRows :: "Record \<Rightarrow> string list \<Rightarrow> 'h world \<Rightarrow> string list panics \<times> 'h world" where
  "verifyRows r results w =
     (case SortResults r results of
        Inl p \<Rightarrow> (Inl p, w)
      | Inr results1 \<Rightarrow>
          (case firstDifference 0 (result r) results1 of
             Inl p \<Rightarrow> (Inl p, w)
           | Inr (Some (i, e, g)) \<Rightarrow> (Inr results1, logLine r (IncorrectResult i e g) w)
           | Inr None \<Rightarrow> (Inr results1, logLine r Ok w)))"

definition verifyHash ::
  "(string \<Rightarrow> string) \<Rightarrow> Record \<Rightarrow> string list \<Rightarrow> 'h world \<Rightarrow> string list panics \<times> 'h world" where
  "verifyHash md5hex r results w =
     (case SortResults r results of
        Inl p \<Rightarrow> (Inl p, w)
      | Inr results1 \<Rightarrow>
          (let computedHash = hashResults md5hex results1
           in case HashResult r of
                Inl p \<Rightarrow> (Inl p, w)
              | Inr h \<Rightarrow>
                  if h \<noteq> computedHash then (Inr results1, logLine r (HashesDiffer h computedHash) w)
                  else (Inr results1, logLine r Ok w)))"

definition verifyResults ::
  "(string \<Rightarrow> string) \<Rightarrow> Record \<Rightarrow> string list \<Rightarrow> 'h world \<Rightarrow> string list panics \<times> 'h world" where
  "verifyResults md5hex r results w =
     (case NumResults r of
        Inl p \<Rightarrow> (Inl p, w)
      | Inr n \<Rightarrow>
          if int (length results) \<noteq> n then
            (Inr results, logLine r (IncorrectNumber n (int (length results))) w)
          else if IsHashResult r then verifyHash md5hex r results w
          else verifyRows r results w)"

text \<open>
  The body of \<^verbatim>\<open>executeRecord\<close>: its four results and the world after it, or the panic
  that ended it and the world at that moment.
\<close>

type_synonym outcome = "string \<times> string list \<times> bool \<times> goerror"

definition executeBody ::
  "(string \<Rightarrow> string) \<Rightarrow> 'h Harness \<Rightarrow> Record \<Rightarrow> 'h world
     \<Rightarrow> (string \<times> 'h world) + (outcome \<times> 'h world)" where
  "executeBody md5hex harness r w =
     (if \<not> ShouldExecuteForEngine r (EngineStr harness) then
        Inr (([], [], False, None),
             (if recordType r = Query \<or> recordType r = Statement then logLine r Skipped w
              else w))
      else case recordType r of
        Statement \<Rightarrow>
          (case ExecuteStatement harness (query r) (backend w) of
             (Inl p, b) \<Rightarrow> Inl (p, w\<lparr>backend := b\<rparr>)
           | (Inr err, b) \<Rightarrow>
               if expectError r then
                 (if err = None then
                    Inr (([], [], True, None), logLine r ExpectedError (w\<lparr>backend := b\<rparr>))
                  else Inr (([], [], True, None), logLine r Ok (w\<lparr>backend := b\<rparr>)))
               else
                 (case err of
                    Some e \<Rightarrow>
                      Inr (([], [], True, err),
                           logLine r (UnexpectedError e) (w\<lparr>backend := b\<rparr>))
                  | None \<Rightarrow> Inr (([], [], True, None), logLine r Ok (w\<lparr>backend := b\<rparr>))))
      | Query \<Rightarrow>
          (case ExecuteQuery harness (query r) (backend w) of
             (Inl p, b) \<Rightarrow> Inl (p, w\<lparr>backend := b\<rparr>)
           | (Inr (schemaStr, results, err), b) \<Rightarrow>
               (case err of
                  Some e \<Rightarrow>
                    Inr (([], [], True, err), logLine r (UnexpectedError e) (w\<lparr>backend := b\<rparr>))
                | None \<Rightarrow>
                    (case verifySchema r schemaStr (w\<lparr>backend := b\<rparr>) of
                       (Inl p, w') \<Rightarrow> Inl (p, w')
                     | (Inr False, w') \<Rightarrow> Inr ((schemaStr, results, True, None), w')
                     | (Inr True, w') \<Rightarrow>
                         (case verifyResults md5hex r results w' of
                            (Inl p, w'') \<Rightarrow> Inl (p, w'')
                          | (Inr results', w'') \<Rightarrow>
                              Inr ((schemaStr, results', True, None), w'')))))
      | Halt \<Rightarrow> Inr (([], [], False, None), w))"

text \<open>
  \<^verbatim>\<open>executeRecord\<close>: the deferred function recovers a panic, logs it and sets \<^verbatim>\<open>cont\<close>;
  the other named results are still zero then.
\<close>

definition executeRecord ::
  "(string \<Rightarrow> string) \<Rightarrow> 'h Harness \<Rightarrow> Record \<Rightarrow> 'h world \<Rightarrow> outcome \<times> 'h world" where
  "executeRecord md5hex harness r w =
     (case executeBody md5hex harness r w of
        Inl (p, w') \<Rightarrow> (([], [], True, None), logLine r (CaughtPanic p) w')
      | Inr res \<Rightarrow> res)"

text \<open>The \<^verbatim>\<open>for\<close> loop of \<^verbatim>\<open>runTestFile\<close> over the parsed records.\<close>

fun runRecords ::
  "(string \<Rightarrow> string) \<Rightarrow> 'h Harness \<Rightarrow> Record list \<Rightarrow> 'h world \<Rightarrow> 'h world" where
  "runRecords md5hex harness [] w = w"
| "runRecords md5hex harness (r # testRecords) w =
     (case executeRecord md5hex harness r w of
        ((schemaStr, results, cont, err), w') \<Rightarrow>
          if \<not> cont then w' else runRecords md5hex harness testRecords w')"

text \<open>
  \<^verbatim>\<open>runTestFile\<close>, given the contents of the file as \<^verbatim>\<open>ParseTestFile\<close> above. When
  \<^verbatim>\<open>Init\<close> or the parser fails it panics with the error (\<open>Inl\<close>), which nothing recovers.
\<close>

definition runTestFile ::
  "(string \<Rightarrow> string) \<Rightarrow> 'h Harness \<Rightarrow> string list \<Rightarrow> string option \<Rightarrow> 'h world
     \<Rightarrow> error + 'h world" where
  "runTestFile md5hex harness lines err w =
     (case Init harness (backend w) of
        (Some e, b) \<Rightarrow> Inl (Panic e)
      | (None, b) \<Rightarrow>
          (case ParseTestFile lines err of
             Inl e \<Rightarrow> Inl e
           | Inr testRecords \<Rightarrow> Inr (runRecords md5hex harness testRecords (w\<lparr>backend := b\<rparr>))))"

section \<open>Records and slices in memory\<close>

text \<open>
  Go hands a record over as a pointer to its struct and a list of values as a slice, a
  window on an array; two slices may lie on the same array. Where it matters which
  memory a function writes, the functions of the verifier are given once more on such a
  memory. A slice is the address of its array, the index of its first element there and
  its length (its capacity plays no part: the verifier never appends). The memory holds
  every \<^verbatim>\<open>Record\<close> struct by address. The field \<^verbatim>\<open>result\<close> of a struct is a slice:
  \<open>resultSlices\<close> holds it, and the field \<open>result\<close> of the record kept in \<open>structs\<close>
  is not read. \<open>load\<close> reads a record with the elements its \<^verbatim>\<open>result\<close> has at that
  moment.
\<close>

type_synonym addr = nat

record slice =
  array :: addr
  low :: nat
  len :: nat

record memory =
  structs :: "addr \<Rightarrow> Record"
  resultSlices :: "addr \<Rightarrow> slice"
  arrays :: "addr \<Rightarrow> string list"

definition view :: "memory \<Rightarrow> slice \<Rightarrow> string list" where
  "view m s = take (len s) (drop (low s) (arrays m (array s)))"

text \<open>A slice of Go lies within its array.\<close>

definition inside :: "memory \<Rightarrow> slice \<Rightarrow> bool" where
  "inside m s = (low s + len s \<le> length (arrays m (array s)))"

text \<open>Two slices that share an element.\<close>

definition overlap :: "slice \<Rightarrow> slice \<Rightarrow> bool" where
  "overlap s t =
     (array s = array t \<and> max (low s) (low t) < min (low s + len s) (low t + len t))"

text \<open>Writing the elements of a slice, as many as it has.\<close>

definition storeElems :: "slice \<Rightarrow> string list \<Rightarrow> memory \<Rightarrow> memory" where
  "storeElems s vs m =
     m\<lparr>arrays := (arrays m)
          (array s := take (low s) (arrays m (array s)) @ vs
                      @ drop (low s + len s) (arrays m (array s)))\<rparr>"

definition load :: "memory \<Rightarrow> addr \<Rightarrow> Record" where
  "load m p = (structs m p)\<lparr>result := view m (resultSlices m p)\<rparr>"

text \<open>
  \<^verbatim>\<open>SortResults\<close> on the record at \<open>p\<close>: \<^verbatim>\<open>sort.Sort\<close> and \<^verbatim>\<open>sort.Strings\<close> swap the
  elements of the slice they are given where they lie, and the slice itself is returned.
  Of the record the sort reads its sort mode, its type and its schema. A panic comes
  before the first swap.
\<close>

definition SortResults_mem :: "addr \<Rightarrow> slice \<Rightarrow> memory \<Rightarrow> slice panics \<times> memory" where
  "SortResults_mem p results m =
     (case SortResults (load m p) (view m results) of
        Inl pn \<Rightarrow> (Inl pn, m)
      | Inr vs \<Rightarrow> (Inr results, storeElems results vs m))"

text \<open>
  \<^verbatim>\<open>verifyRows\<close>, \<^verbatim>\<open>verifyHash\<close> and \<^verbatim>\<open>verifyResults\<close> on the record at \<open>p\<close> and the
  slice \<open>results\<close>. The expected values and the hash are read from the record after the
  sort, as the code reads them.
\<close>

definition verifyRows_mem ::
  "addr \<Rightarrow> slice \<Rightarrow> 'h world \<Rightarrow> memory \<Rightarrow> unit panics \<times> 'h world \<times> memory" where
  "verifyRows_mem p results w m =
     (case SortResults_mem p results m of
        (Inl pn, m') \<Rightarrow> (Inl pn, w, m')
      | (Inr results1, m') \<Rightarrow>
          (case firstDifference 0 (result (load m' p)) (view m' results1) of
             Inl pn \<Rightarrow> (Inl pn, w, m')
           | Inr (Some (i, e, g)) \<Rightarrow> (Inr (), logLine (load m' p) (IncorrectResult i e g) w, m')
           | Inr None \<Rightarrow> (Inr (), logLine (load m' p) Ok w, m')))"

definition verifyHash_mem ::
  "(string \<Rightarrow> string) \<Rightarrow> addr \<Rightarrow> slice \<Rightarrow> 'h world \<Rightarrow> memory
     \<Rightarrow> unit panics \<times> 'h world \<times> memory" where
  "verifyHash_mem md5hex p results w m =
     (case SortResults_mem p results m of
        (Inl pn, m') \<Rightarrow> (Inl pn, w, m')
      | (Inr results1, m') \<Rightarrow>
          (let computedHash = hashResults md5hex (view m' results1)
           in case HashResult (load m' p) of
                Inl pn \<Rightarrow> (Inl pn, w, m')
              | Inr h \<Rightarrow>
                  if h \<noteq> computedHash then
                    (Inr (), logLine (load m' p) (HashesDiffer h computedHash) w, m')
                  else (Inr (), logLine (load m' p) Ok w, m')))"

definition verifyResults_mem ::
  "(string \<Rightarrow> string) \<Rightarrow> addr \<Rightarrow> slice \<Rightarrow> 'h world \<Rightarrow> memory
     \<Rightarrow> unit panics \<times> 'h world \<times> memory" where
  "verifyResults_mem md5hex p results w m =
     (case NumResults (load m p) of
        Inl pn \<Rightarrow> (Inl pn, w, m)
      | Inr n \<Rightarrow>
          if int (len results) \<noteq> n then
            (Inr (), logLine (load m p) (IncorrectNumber n (int (len results))) w, m)
          else if IsHashResult (load m p) then verifyHash_mem md5hex p results w m
          else verifyRows_mem p results w m)"

section \<open>The directives of a script, read off the specification\<close>

text \<open>
  Section 4.2 of the specification: in the start state blank lines and lines that start
  with \<^verbatim>\<open>#\<close> are skipped, and the first token of any other line, its comment removed,
  selects the directive; a statement or query directive opens a body that the next blank
  line ends. \<open>specLine\<close> names the directive of a line read in the start state.
\<close>

datatype lineKind = LComment | LBlank | LHalt | LThreshold int | LRecord | LOther

definition specLine :: "string \<Rightarrow> lineKind" where
  "specLine l =
     (if HasPrefix l ''#'' then LComment
      else if isBlankLine l then LBlank
      else case Fields (removeComments l) of
             [] \<Rightarrow> LOther
           | f0 # fs \<Rightarrow>
               if f0 = ''halt'' then LHalt
               else if f0 = ''hash-threshold'' then
                 (case fs of [] \<Rightarrow> LOther | f1 # _ \<Rightarrow> LThreshold (Atoi f1))
               else if f0 = ''statement'' \<or> f0 = ''query'' then LRecord
               else LOther)"

text \<open>
  The directives of a script that matter for its records, in the order of the script:
  \<open>DHalt\<close>, a statement or query directive (\<open>DRecord\<close>), and \<open>DThreshold v\<close> for
  \<^verbatim>\<open>hash-threshold\<close> with the value \<open>v\<close> that \<^verbatim>\<open>Atoi\<close> reads. A statement or query
  directive that nothing but \<^verbatim>\<open>#\<close>-lines follows up to the end of the input is told apart
  as \<open>DDangling\<close>: the parser answers \<^verbatim>\<open>io.EOF\<close> there, since no canonical line was set,
  and returns no record for it. \<open>inBody\<close> tells whether the line is read inside the body
  of a statement or query.
\<close>

datatype directive = DHalt | DRecord | DDangling | DThreshold int

fun specDirectives :: "bool \<Rightarrow> string list \<Rightarrow> directive list" where
  "specDirectives inBody [] = []"
| "specDirectives inBody (l # ls) =
     (if HasPrefix l ''#'' then specDirectives inBody ls
      else if inBody then specDirectives (\<not> isBlankLine l) ls
      else case specLine l of
             LHalt \<Rightarrow> DHalt # specDirectives False ls
           | LThreshold v \<Rightarrow> DThreshold v # specDirectives False ls
           | LRecord \<Rightarrow>
               (if list_all (\<lambda>l. HasPrefix l ''#'') ls then DDangling else DRecord)
                 # specDirectives True ls
           | _ \<Rightarrow> specDirectives False ls)"

text \<open>
  The threshold the specification gives each record of the script: the value of the most
  recent \<^verbatim>\<open>hash-threshold\<close> directive before it, \<open>cur\<close> when there is none.
\<close>

fun thresholdsOf :: "int \<Rightarrow> directive list \<Rightarrow> int list" where
  "thresholdsOf cur [] = []"
| "thresholdsOf cur (DThreshold v # ds) = thresholdsOf v ds"
| "thresholdsOf cur (DDangling # ds) = thresholdsOf cur ds"
| "thresholdsOf cur (DHalt # ds) = cur # thresholdsOf cur ds"
| "thresholdsOf cur (DRecord # ds) = cur # thresholdsOf cur ds"


abbreviation commentsOnly :: "string list \<Rightarrow> bool" where
  "commentsOnly ls \<equiv> list_all (\<lambda>l. HasPrefix l ''#'') ls"

definition nonHaltCount :: "Record list \<Rightarrow> nat" where
  "nonHaltCount records = length (filter (\<lambda>r. recordType r \<noteq> Halt) records)"

definition recordDirectiveCount :: "directive list \<Rightarrow> nat" where
  "recordDirectiveCount ds = length (filter (\<lambda>d. d = DRecord) ds)"

definition currentThreshold :: "Record option \<Rightarrow> int" where
  "currentThreshold prev = (case prev of None \<Rightarrow> defaultHashThreshold | Some p \<Rightarrow> hashThreshold p)"

text \<open>
  The count the claim about record numbers speaks of: the statement and query directives
  of a list of directives, and the directives before the first \<^verbatim>\<open>halt\<close>.
\<close>

definition statementDirectiveCount :: "directive list \<Rightarrow> nat" where
  "statementDirectiveCount ds = length (filter (\<lambda>d. d = DRecord \<or> d = DDangling) ds)"

definition directivesBeforeHalt :: "directive list \<Rightarrow> directive list" where
  "directivesBeforeHalt ds = takeWhile (\<lambda>d. d \<noteq> DHalt) ds"

text \<open>
  What it means for two parses to agree but for line numbers: two records that differ in
  \<open>lineNum\<close> at most, and two failures that are the same but for the line number in the
  message. \<open>dropComments\<close> removes the lines that start with \<^verbatim>\<open>#\<close> from a script.
\<close>

definition sameRecord :: "Record \<Rightarrow> Record \<Rightarrow> bool" where
  "sameRecord r r' = (r\<lparr>lineNum := 0\<rparr> = r'\<lparr>lineNum := 0\<rparr>)"

definition sameError :: "error \<Rightarrow> error \<Rightarrow> bool" where
  "sameError e e' =
     (case e of
        UnhandledStatement t n \<Rightarrow> (case e' of UnhandledStatement t' n' \<Rightarrow> t = t' | _ \<Rightarrow> False)
      | _ \<Rightarrow> e = e')"

definition dropComments :: "string list \<Rightarrow> string list" where
  "dropComments ls = filter (\<lambda>l. \<not> HasPrefix l ''#'') ls"

text \<open>
  The relation the proof carries through the parser: the second record is the first with
  another line number, and both line numbers are set or both are not.
\<close>

definition alike :: "Record \<Rightarrow> Record \<Rightarrow> bool" where
  "alike r r' = (r' = r\<lparr>lineNum := lineNum r'\<rparr> \<and> ((lineNum r = 0) = (lineNum r' = 0)))"

definition alikeRes :: "error + Record \<Rightarrow> error + Record \<Rightarrow> bool" where
  "alikeRes = rel_sum sameError alike"

definition stepAlike :: "step \<Rightarrow> step \<Rightarrow> bool" where
  "stepAlike s s' =
     (case s of
        Continue r1 st1 qb1 \<Rightarrow>
          (case s' of
             Continue r1' st1' qb1' \<Rightarrow> alike r1 r1' \<and> st1' = st1 \<and> qb1' = qb1
           | Return res' \<Rightarrow> False)
      | Return res \<Rightarrow>
          (case s' of Continue r1' st1' qb1' \<Rightarrow> False | Return res' \<Rightarrow> alikeRes res res'))"

section \<open>Example inputs\<close>

text \<open>A script with a comment, a threshold directive and a conditional halt, and its records.\<close>

definition exampleScript :: "string list" where
  "exampleScript =
     [''statement ok'', ''CREATE TABLE t1(a INTEGER)'', '''',
      ''hash-threshold 16'', '''',
      ''onlyif mysql'', ''halt'', '''',
      ''# a comment'',
      ''query I nosort'', ''SELECT a'', ''  FROM t1'', ''----'', ''1'']"

definition exampleRecords :: "Record list" where
  "exampleRecords =
     [\<lparr>recordType = Statement, expectError = False, conditions = [], schema = [],
       sortMode = [], query = ''CREATE TABLE t1(a INTEGER)'', lineNum = 2, result = [],
       label = [], hashThreshold = 8\<rparr>,
      \<lparr>recordType = Halt, expectError = False,
       conditions = [\<lparr>isOnly = True, isSkip = False, engine = ''mysql''\<rparr>], schema = [],
       sortMode = [], query = [], lineNum = 7, result = [], label = [],
       hashThreshold = 16\<rparr>,
      \<lparr>recordType = Query, expectError = False, conditions = [], schema = ''I'',
       sortMode = ''nosort'', query = ''SELECT a  FROM t1'', lineNum = 11, result = [''1''],
       label = [], hashThreshold = 16\<rparr>]"

text \<open>
  A backend named \<open>name\<close> that accepts every statement and answers every query with the
  schema and the values given; it has no state of its own.
\<close>

definition fixedHarness :: "string \<Rightarrow> string \<Rightarrow> string list \<Rightarrow> unit Harness" where
  "fixedHarness name schemaStr results =
     \<lparr>EngineStr = name, Init = (\<lambda>h. (None, h)),
      ExecuteStatement = (\<lambda>q h. (Inr None, h)),
      ExecuteQuery = (\<lambda>q h. (Inr (schemaStr, results, None), h))\<rparr>"

definition idleWorld :: "unit world" where
  "idleWorld = \<lparr>backend = (), printed = []\<rparr>"

definition queryRecord :: "string \<Rightarrow> SortMode \<Rightarrow> string list \<Rightarrow> Record" where
  "queryRecord schemaStr mode expected =
     \<lparr>recordType = Query, expectError = False, conditions = [], schema = schemaStr,
      sortMode = mode, query = ''SELECT a FROM t1'', lineNum = 2, result = expected,
      label = [], hashThreshold = 8\<rparr>"

definition skippedStatement :: Record where
  "skippedStatement =
     \<lparr>recordType = Statement, expectError = False,
      conditions = [\<lparr>isOnly = False, isSkip = True, engine = ''mysql''\<rparr>], schema = [],
      sortMode = [], query = ''CREATE TABLE t1(a INTEGER)'', lineNum = 3, result = [],
      label = [], hashThreshold = 8\<rparr>"

definition plainStatement :: Record where
  "plainStatement =
     \<lparr>recordType = Statement, expectError = False, conditions = [], schema = [],
      sortMode = [], query = ''CREATE TABLE t2(a INTEGER)'', lineNum = 6, result = [],
      label = [], hashThreshold = 8\<rparr>"

text \<open>
  A backend named \<open>name\<close> whose state counts the statements and queries it was given; it
  accepts every statement and answers every query with no value.
\<close>

definition countingHarness :: "string \<Rightarrow> nat Harness" where
  "countingHarness name =
     \<lparr>EngineStr = name, Init = (\<lambda>h. (None, h)),
      ExecuteStatement = (\<lambda>q h. (Inr None, Suc h)),
      ExecuteQuery = (\<lambda>q h. (Inr (''I'', [], None), Suc h))\<rparr>"

definition freshWorld :: "nat world" where
  "freshWorld = \<lparr>backend = 0, printed = []\<rparr>"

text \<open>A script whose records are the two statements above.\<close>

definition skipScript :: "string list" where
  "skipScript =
     [''skipif mysql'', ''statement ok'', ''CREATE TABLE t1(a INTEGER)'', '''',
      ''statement ok'', ''CREATE TABLE t2(a INTEGER)'']"

text \<open>
  A query whose expected result is a hash line with a comment behind it, and its record.
\<close>

definition hashScript :: "string list" where
  "hashScript =
     [''query I nosort'', ''SELECT a FROM t1'', ''----'',
      ''30 values hashing to 3c13dee48d9356ae19af2515e05e6b54 # checked by hand'']"

definition hashRecord :: Record where
  "hashRecord =
     \<lparr>recordType = Query, expectError = False, conditions = [], schema = ''I'',
      sortMode = ''nosort'', query = ''SELECT a FROM t1'', lineNum = 2,
      result = [''30 values hashing to 3c13dee48d9356ae19af2515e05e6b54 ''], label = [],
      hashThreshold = 8\<rparr>"

text \<open>
  A memory with a query record that expects the values 1, 2 in array 1, and a slice of
  observed values 2, 1 in the middle of array 2; and a memory in which the expected
  values of the record are 2, 1.
\<close>

definition exampleMemory :: memory where
  "exampleMemory =
     \<lparr>structs = (\<lambda>p. queryRecord ''I'' ValueSort []),
      resultSlices = (\<lambda>p. \<lparr>array = 1, low = 0, len = 2\<rparr>),
      arrays = (\<lambda>a. if a = 1 then [''1'', ''2'']
                     else if a = 2 then [''0'', ''2'', ''1'', ''3''] else [])\<rparr>"

definition observed :: slice where
  "observed = \<lparr>array = 2, low = 1, len = 2\<rparr>"

definition aliasedMemory :: memory where
  "aliasedMemory =
     \<lparr>structs = (\<lambda>p. queryRecord ''I'' ValueSort []),
      resultSlices = (\<lambda>p. \<lparr>array = 1, low = 0, len = 2\<rparr>),
      arrays = (\<lambda>a. if a = 1 then [''2'', ''1''] else [])\<rparr>"

section \<open>Condition evaluation: the rule\<close>

lemma skipLoop_iff: "skipLoop cs e = (\<not> (\<exists>c\<in>set cs. isSkip c \<and> engine c = e))"
  by (induction cs) auto

text \<open>
  C2. A record whose condition list is a single only-condition is eligible exactly for
  that condition's engine. Every other record (no condition, several conditions, a
  single skip-condition) is eligible exactly when no skip-condition of its list names
  the engine; an only-condition in a list of several conditions has no effect.
\<close>

theorem ShouldExecuteForEngine_rule:
  "ShouldExecuteForEngine r e =
     (if length (conditions r) = 1 \<and> isOnly (hd (conditions r))
      then engine (hd (conditions r)) = e
      else \<not> (\<exists>c\<in>set (conditions r). isSkip c \<and> engine c = e))"
proof (cases "conditions r")
  case Nil
  then show ?thesis by (simp add: ShouldExecuteForEngine_def)
next
  case (Cons c cs)
  then show ?thesis
    by (simp add: ShouldExecuteForEngine_def skipLoop_iff)
qed

theorem ShouldExecuteForEngine_rule_witness:
  "ShouldExecuteForEngine
     \<lparr>recordType = Query, expectError = False,
      conditions = [\<lparr>isOnly = True, isSkip = False, engine = ''mysql''\<rparr>,
                    \<lparr>isOnly = False, isSkip = True, engine = ''oracle''\<rparr>],
      schema = ''I'', sortMode = ''nosort'', query = ''SELECT 1'', lineNum = 2,
      result = [''1''], label = [], hashThreshold = 8\<rparr> ''sqlite''
   \<and> \<not> ShouldExecuteForEngine
     \<lparr>recordType = Query, expectError = False,
      conditions = [\<lparr>isOnly = True, isSkip = False, engine = ''mysql''\<rparr>],
      schema = ''I'', sortMode = ''nosort'', query = ''SELECT 1'', lineNum = 2,
      result = [''1''], label = [], hashThreshold = 8\<rparr> ''sqlite''"
  using ShouldExecuteForEngine_rule
          [of "\<lparr>recordType = Query, expectError = False,
      conditions = [\<lparr>isOnly = True, isSkip = False, engine = ''mysql''\<rparr>,
                    \<lparr>isOnly = False, isSkip = True, engine = ''oracle''\<rparr>],
      schema = ''I'', sortMode = ''nosort'', query = ''SELECT 1'', lineNum = 2,
      result = [''1''], label = [], hashThreshold = 8\<rparr>" "''sqlite''"]
        ShouldExecuteForEngine_rule
          [of "\<lparr>recordType = Query, expectError = False,
      conditions = [\<lparr>isOnly = True, isSkip = False, engine = ''mysql''\<rparr>],
      schema = ''I'', sortMode = ''nosort'', query = ''SELECT 1'', lineNum = 2,
      result = [''1''], label = [], hashThreshold = 8\<rparr>" "''sqlite''"]
  by simp


section \<open>The parser and the directives of the script\<close>

lemma spaceWidth_pos:
  assumes "e \<in> set spaceRunes" and "HasPrefix s e"
  shows "0 < spaceWidth s"
proof (cases s rule: spaceWidth_cases)
  case 1
  with assms show ?thesis by blast
next
  case (2 e')
  then show ?thesis by simp
qed

lemma HasPrefix_append: "HasPrefix s e \<Longrightarrow> HasPrefix (s @ u) e"
proof -
  assume a: "HasPrefix s e"
  hence "length e \<le> length s" unfolding HasPrefix_def by (metis length_take min.cobounded1)
  with a show ?thesis by (simp add: HasPrefix_def)
qed

lemma spaceWidth_trimLeft: "spaceWidth (trimLeft s) = 0"
proof (induction s rule: trimLeft.induct)
  case (1 s)
  show ?case
  proof (cases "0 < spaceWidth s")
    case True
    with 1 show ?thesis by (subst trimLeft.simps) simp
  next
    case False
    then show ?thesis by (subst trimLeft.simps) simp
  qed
qed

lemma trimRight_empty: "trimRight t = [] \<Longrightarrow> t = [] \<or> 0 < spaceWidth t"
proof (induction t rule: trimRight.induct)
  case (1 t)
  show ?case
  proof (cases t rule: trailingSpaceWidth_cases)
    case 1
    with "1.prems" show ?thesis by (subst (asm) trimRight.simps) simp
  next
    case (2 e)
    let ?t' = "take (length t - length e) t"
    from 2(2) have t: "t = ?t' @ e"
      unfolding HasSuffix_def by (metis append_take_drop_id)
    from 2 have pos: "0 < trailingSpaceWidth t" by simp
    with "1.prems" 2(3) have "trimRight ?t' = []" by (subst (asm) trimRight.simps) simp
    with "1.IH" [OF pos] 2(3) have "?t' = [] \<or> 0 < spaceWidth ?t'" by simp
    then show ?thesis
    proof
      assume "?t' = []"
      with t have "t = e" by simp
      hence "HasPrefix t e" by (simp add: HasPrefix_def)
      from spaceWidth_pos [OF 2(1) this] show ?thesis by simp
    next
      assume "0 < spaceWidth ?t'"
      then obtain e' where e': "e' \<in> set spaceRunes" "HasPrefix ?t' e'"
        by (cases ?t' rule: spaceWidth_cases) auto
      from HasPrefix_append [OF e'(2), of e] t have "HasPrefix t e'" by simp
      from spaceWidth_pos [OF e'(1) this] show ?thesis by simp
    qed
  qed
qed

lemma blank_trimLeft: "isBlankLine l \<Longrightarrow> trimLeft l = []"
  using trimRight_empty [of "trimLeft l"] spaceWidth_trimLeft [of l]
  by (auto simp: isBlankLine_def TrimSpace_def)

lemma trimLeft_empty:
  "trimLeft l = [] \<Longrightarrow> fieldsFrom [] l = [] \<and> CHR ''#'' \<notin> set l"
proof (induction l rule: trimLeft.induct)
  case (1 s)
  show ?case
  proof (cases s rule: spaceWidth_cases)
    case 1
    with "1.prems" have "s = []" by (subst (asm) trimLeft.simps) simp
    then show ?thesis by simp
  next
    case (2 e)
    from 2 have pos: "0 < spaceWidth s" by simp
    with "1.prems" have "trimLeft (drop (spaceWidth s) s) = []"
      by (subst (asm) trimLeft.simps) simp
    from "1.IH" [OF pos this]
    have ih: "fieldsFrom [] (drop (spaceWidth s) s) = []"
      "CHR ''#'' \<notin> set (drop (spaceWidth s) s)" by simp_all
    from 2(2,3) have s: "s = e @ drop (spaceWidth s) s"
      unfolding HasPrefix_def by (metis append_take_drop_id)
    from spaceRunes_no_hash [OF 2(1)] ih(2) s have "CHR ''#'' \<notin> set s"
      by (metis Un_iff set_append)
    moreover from pos obtain c cs where "s = c # cs"
      using spaceWidth_pos_nonempty by (cases s) auto
    with pos ih(1) have "fieldsFrom [] s = []" by simp
    ultimately show ?thesis by simp
  qed
qed

lemma blank_no_fields: "isBlankLine l \<Longrightarrow> Fields (removeComments l) = []"
proof -
  assume "isBlankLine l"
  from trimLeft_empty [OF blank_trimLeft [OF this]]
  have f: "fieldsFrom [] l = []" and h: "CHR ''#'' \<notin> set l" by simp_all
  from h have "removeComments l = l"
    unfolding removeComments_def by (auto simp: takeWhile_eq_all_conv)
  with f show ?thesis by (simp add: Fields_def)
qed

lemma parseLine_comment:
  "HasPrefix l ''#'' \<Longrightarrow> parseLine l n rec st qb = Continue rec st qb"
  by (simp add: parseLine_def Let_def)

lemma parseLine_start_blank:
  "\<not> HasPrefix l ''#'' \<Longrightarrow> isBlankLine l \<Longrightarrow> parseLine l n rec stateStart qb = Continue rec stateStart qb"
  by (simp add: parseLine_def Let_def)

lemma parseLine_start:
  "\<not> HasPrefix l ''#'' \<Longrightarrow> \<not> isBlankLine l \<Longrightarrow>
   parseLine l n rec stateStart qb = parseStart (Fields (removeComments l)) n rec qb"
  by (simp add: parseLine_def Let_def)

lemma parseLine_halt:
  "specLine l = LHalt \<Longrightarrow>
   parseLine l n rec stateStart qb = Return (Inr (rec\<lparr>recordType := Halt, lineNum := n\<rparr>))"
  by (auto simp: specLine_def parseLine_def parseStart_def Let_def split: if_splits list.splits)

lemma parseLine_threshold:
  "specLine l = LThreshold v \<Longrightarrow>
   parseLine l n rec stateStart qb = Continue (rec\<lparr>hashThreshold := v\<rparr>) stateStart qb"
  by (auto simp: specLine_def parseLine_def parseStart_def Let_def split: if_splits list.splits)

lemma parseLine_record:
  "specLine l = LRecord \<Longrightarrow>
   (\<exists>rec' st'. parseLine l n rec stateStart qb = Continue rec' st' qb
       \<and> (st' = stateStatement \<or> st' = stateQuery)
       \<and> hashThreshold rec' = hashThreshold rec \<and> lineNum rec' = lineNum rec
       \<and> recordType rec' \<noteq> Halt)
   \<or> (\<exists>e. parseLine l n rec stateStart qb = Return (Inl e) \<and> e \<noteq> EOF)"
  by (auto simp: specLine_def parseLine_def parseStart_def Let_def indexPanic_def split: if_splits list.splits)

lemma parseLine_other:
  "specLine l = LOther \<Longrightarrow>
   (\<exists>rec'. parseLine l n rec stateStart qb = Continue rec' stateStart qb
       \<and> hashThreshold rec' = hashThreshold rec \<and> lineNum rec' = lineNum rec)
   \<or> (\<exists>e. parseLine l n rec stateStart qb = Return (Inl e) \<and> e \<noteq> EOF)"
  by (auto simp: specLine_def parseLine_def parseStart_def Let_def indexPanic_def split: if_splits list.splits)

lemma specLine_blank: "specLine l = LBlank \<longleftrightarrow> \<not> HasPrefix l ''#'' \<and> isBlankLine l"
  by (auto simp: specLine_def split: if_splits list.splits)

lemma specLine_comment: "specLine l = LComment \<longleftrightarrow> HasPrefix l ''#''"
  by (auto simp: specLine_def split: if_splits list.splits)

lemma parseLine_body_blank:
  "st \<noteq> stateStart \<Longrightarrow> \<not> HasPrefix l ''#'' \<Longrightarrow> isBlankLine l \<Longrightarrow>
   \<exists>r. parseLine l n rec st qb = Return (Inr r)
     \<and> hashThreshold r = hashThreshold rec \<and> recordType r = recordType rec"
  by (cases st) (auto simp: parseLine_def Let_def blank_no_fields setLineNum_def)

lemma parseLine_body_nonblank:
  "st \<noteq> stateStart \<Longrightarrow> \<not> HasPrefix l ''#'' \<Longrightarrow> \<not> isBlankLine l \<Longrightarrow>
   \<exists>rec' st' qb'. parseLine l n rec st qb = Continue rec' st' qb'
     \<and> st' \<noteq> stateStart
     \<and> hashThreshold rec' = hashThreshold rec \<and> recordType rec' = recordType rec
     \<and> (st \<noteq> stateResults \<longrightarrow> n \<noteq> 0 \<longrightarrow> lineNum rec' \<noteq> 0)"
  by (cases st) (auto simp: parseLine_def Let_def setLineNum_def)

lemma parseLine_lineNum_kept:
  "lineNum rec \<noteq> 0 \<Longrightarrow> parseLine l n rec st qb = Continue rec' st' qb' \<Longrightarrow> lineNum rec' \<noteq> 0"
  by (cases st)
     (auto simp: parseLine_def parseStart_def Let_def setLineNum_def indexPanic_def
           split: if_splits list.splits)

lemma parseLine_not_EOF: "parseLine l n rec st qb \<noteq> Return (Inl EOF)"
  by (cases st)
     (auto simp: parseLine_def parseStart_def Let_def setLineNum_def indexPanic_def
           split: if_splits list.splits)

lemma parseLoop_not_EOF:
  "lineNum rec \<noteq> 0 \<Longrightarrow> fst (parseLoop ls n err rec st qb) \<noteq> Inl EOF"
proof (induction ls arbitrary: n rec st qb)
  case Nil
  then show ?case by (simp add: parseEnd_def split: option.splits recordParseState.splits)
next
  case (Cons l ls)
  show ?case
  proof (cases "parseLine l (n + 1) rec st qb")
    case (Continue rec' st' qb')
    with Cons.prems have "lineNum rec' \<noteq> 0" by (auto dest: parseLine_lineNum_kept)
    from Cons.IH [OF this] Continue show ?thesis by simp
  next
    case (Return res)
    with parseLine_not_EOF [of l "n + 1" rec st qb] show ?thesis by auto
  qed
qed

lemma parseLoop_counter:
  "parseLoop ls n err rec st qb = (res, rest, n') \<Longrightarrow> n \<le> n'"
proof (induction ls arbitrary: n rec st qb)
  case Nil
  then show ?case by simp
next
  case (Cons l ls)
  show ?case
  proof (cases "parseLine l (n + 1) rec st qb")
    case (Continue rec' st' qb')
    with Cons.prems have "parseLoop ls (n + 1) err rec' st' qb' = (res, rest, n')" by simp
    from Cons.IH [OF this] show ?thesis by simp
  next
    case (Return r)
    with Cons.prems show ?thesis by simp
  qed
qed

lemma specDirectives_comments: "commentsOnly ls \<Longrightarrow> specDirectives b ls = []"
  by (induction ls) auto

lemma body_EOF_comments:
  assumes "st = stateStatement \<or> st = stateQuery" and "0 \<le> n"
    and "parseLoop ls n err rec st qb = (Inl EOF, rest, n')"
  shows "commentsOnly ls"
  using assms
proof (induction ls arbitrary: n rec qb)
  case Nil
  then show ?case by simp
next
  case (Cons l ls)
  show ?case
  proof (cases "HasPrefix l ''#''")
    case True
    with Cons.prems have "parseLoop ls (n + 1) err rec st qb = (Inl EOF, rest, n')"
      by (simp add: parseLine_comment)
    with Cons.IH [of "n + 1" rec qb] Cons.prems True show ?thesis by simp
  next
    case False
    show ?thesis
    proof (cases "isBlankLine l")
      case True
      with False Cons.prems(1) obtain r where "parseLine l (n + 1) rec st qb = Return (Inr r)"
        using parseLine_body_blank [of st l "n + 1" rec qb] by auto
      with Cons.prems show ?thesis by simp
    next
      case nb: False
      from False nb Cons.prems(1,2) obtain rec' st' qb' where
        c: "parseLine l (n + 1) rec st qb = Continue rec' st' qb'" and "lineNum rec' \<noteq> 0"
        using parseLine_body_nonblank [of st l "n + 1" rec qb] by auto
      from parseLoop_not_EOF [OF this(2), of ls "n + 1" err st' qb'] c Cons.prems(3)
      show ?thesis by simp
    qed
  qed
qed

lemma body_record:
  assumes "st \<noteq> stateStart"
    and "parseLoop ls n err rec st qb = (Inr r, rest, n')"
  shows "specDirectives True ls = specDirectives False rest
         \<and> hashThreshold r = hashThreshold rec \<and> recordType r = recordType rec
         \<and> (lineNum rec = 0 \<longrightarrow> \<not> commentsOnly ls)"
  using assms
proof (induction ls arbitrary: n rec st qb)
  case Nil
  then show ?case
    by (auto simp: parseEnd_def split: option.splits if_splits recordParseState.splits)
next
  case (Cons l ls)
  show ?case
  proof (cases "HasPrefix l ''#''")
    case True
    with Cons.prems have "parseLoop ls (n + 1) err rec st qb = (Inr r, rest, n')"
      by (simp add: parseLine_comment)
    from Cons.IH [OF Cons.prems(1) this] True show ?thesis by simp
  next
    case False
    show ?thesis
    proof (cases "isBlankLine l")
      case True
      with False Cons.prems(1) obtain r' where
        "parseLine l (n + 1) rec st qb = Return (Inr r')"
        "hashThreshold r' = hashThreshold rec" "recordType r' = recordType rec"
        using parseLine_body_blank [of st l "n + 1" rec qb] by auto
      with Cons.prems(2) False True show ?thesis by auto
    next
      case nb: False
      from False nb Cons.prems(1) obtain rec' st' qb' where
        c: "parseLine l (n + 1) rec st qb = Continue rec' st' qb'" and s: "st' \<noteq> stateStart"
        and k: "hashThreshold rec' = hashThreshold rec" "recordType rec' = recordType rec"
        using parseLine_body_nonblank [of st l "n + 1" rec qb] by auto
      from c Cons.prems(2) have "parseLoop ls (n + 1) err rec' st' qb' = (Inr r, rest, n')"
        by simp
      from Cons.IH [OF s this] k False nb show ?thesis by simp
    qed
  qed
qed

lemma start_record:
  assumes "lineNum rec = 0"
    and "parseLoop ls n err rec stateStart qb = (Inr r, rest, n')"
  shows "\<exists>vs. specDirectives False ls =
               map DThreshold vs @ [if recordType r = Halt then DHalt else DRecord]
                 @ specDirectives False rest
             \<and> hashThreshold r = last (hashThreshold rec # vs)"
  using assms
proof (induction ls arbitrary: n rec qb)
  case Nil
  then show ?case by (simp add: parseEnd_def split: option.splits)
next
  case (Cons l ls)
  let ?step = "parseLine l (n + 1) rec stateStart qb"
  show ?case
  proof (cases "specLine l")
    case LComment
    hence c: "HasPrefix l ''#''" by (simp add: specLine_comment)
    with Cons.prems have "parseLoop ls (n + 1) err rec stateStart qb = (Inr r, rest, n')"
      by (simp add: parseLine_comment)
    from Cons.IH [OF Cons.prems(1) this] c show ?thesis by simp
  next
    case LBlank
    hence c: "\<not> HasPrefix l ''#''" "isBlankLine l" by (simp_all add: specLine_blank)
    with Cons.prems have "parseLoop ls (n + 1) err rec stateStart qb = (Inr r, rest, n')"
      by (simp add: parseLine_start_blank)
    from Cons.IH [OF Cons.prems(1) this] c LBlank show ?thesis by simp
  next
    case LHalt
    hence nc: "\<not> HasPrefix l ''#''" by (auto simp: specLine_def)
    from parseLine_halt [OF LHalt, of "n + 1" rec qb] Cons.prems(2)
    have "r = rec\<lparr>recordType := Halt, lineNum := n + 1\<rparr>" "rest = ls" by auto
    with LHalt nc have "specDirectives False (l # ls) =
        map DThreshold [] @ [if recordType r = Halt then DHalt else DRecord]
          @ specDirectives False rest \<and> hashThreshold r = last (hashThreshold rec # [])"
      by simp
    thus ?thesis by blast
  next
    case (LThreshold v)
    hence nc: "\<not> HasPrefix l ''#''" by (auto simp: specLine_def)
    from parseLine_threshold [OF LThreshold, of "n + 1" rec qb] Cons.prems(2)
    have "parseLoop ls (n + 1) err (rec\<lparr>hashThreshold := v\<rparr>) stateStart qb = (Inr r, rest, n')"
      by simp
    from Cons.IH [OF _ this] Cons.prems(1) obtain vs where
      "specDirectives False ls =
         map DThreshold vs @ [if recordType r = Halt then DHalt else DRecord]
           @ specDirectives False rest"
      "hashThreshold r = last (v # vs)" by auto
    with LThreshold nc have "specDirectives False (l # ls) =
        map DThreshold (v # vs) @ [if recordType r = Halt then DHalt else DRecord]
          @ specDirectives False rest \<and> hashThreshold r = last (hashThreshold rec # v # vs)"
      by simp
    thus ?thesis by blast
  next
    case LRecord
    hence nc: "\<not> HasPrefix l ''#''" by (auto simp: specLine_def)
    from parseLine_record [OF LRecord, of "n + 1" rec qb] Cons.prems(2)
    obtain rec' st' where c: "?step = Continue rec' st' qb"
      and s: "st' \<noteq> stateStart"
      and k: "hashThreshold rec' = hashThreshold rec" "lineNum rec' = lineNum rec"
             "recordType rec' \<noteq> Halt"
      by auto
    from c Cons.prems(2) have "parseLoop ls (n + 1) err rec' st' qb = (Inr r, rest, n')"
      by simp
    from body_record [OF s this] k Cons.prems(1)
    have "specDirectives True ls = specDirectives False rest"
      "hashThreshold r = hashThreshold rec" "recordType r \<noteq> Halt" "\<not> commentsOnly ls"
      by auto
    with LRecord nc have "specDirectives False (l # ls) =
        map DThreshold [] @ [if recordType r = Halt then DHalt else DRecord]
          @ specDirectives False rest \<and> hashThreshold r = last (hashThreshold rec # [])"
      by simp
    thus ?thesis by blast
  next
    case LOther
    hence nc: "\<not> HasPrefix l ''#''" by (auto simp: specLine_def)
    from parseLine_other [OF LOther, of "n + 1" rec qb] Cons.prems(2)
    obtain rec' where c: "?step = Continue rec' stateStart qb"
      and k: "hashThreshold rec' = hashThreshold rec" "lineNum rec' = lineNum rec"
      by auto
    from c Cons.prems(2) have "parseLoop ls (n + 1) err rec' stateStart qb = (Inr r, rest, n')"
      by simp
    from Cons.IH [OF _ this] k Cons.prems(1) LOther nc show ?thesis by simp
  qed
qed

lemma start_eof:
  assumes "0 \<le> n"
    and "parseLoop ls n err rec stateStart qb = (Inl EOF, rest, n')"
  shows "\<exists>vs ds. specDirectives False ls = map DThreshold vs @ ds
            \<and> (ds = [] \<or> ds = [DDangling])"
  using assms
proof (induction ls arbitrary: n rec qb)
  case Nil
  then show ?case by simp
next
  case (Cons l ls)
  let ?step = "parseLine l (n + 1) rec stateStart qb"
  from Cons.prems(1) have n1: "0 \<le> n + 1" by simp
  show ?case
  proof (cases "specLine l")
    case LComment
    hence c: "HasPrefix l ''#''" by (simp add: specLine_comment)
    with Cons.prems have "parseLoop ls (n + 1) err rec stateStart qb = (Inl EOF, rest, n')"
      by (simp add: parseLine_comment)
    from Cons.IH [OF n1 this] c show ?thesis by simp
  next
    case LBlank
    hence c: "\<not> HasPrefix l ''#''" "isBlankLine l" by (simp_all add: specLine_blank)
    with Cons.prems have "parseLoop ls (n + 1) err rec stateStart qb = (Inl EOF, rest, n')"
      by (simp add: parseLine_start_blank)
    from Cons.IH [OF n1 this] c LBlank show ?thesis by simp
  next
    case LHalt
    from parseLine_halt [OF LHalt, of "n + 1" rec qb] Cons.prems(2)
    show ?thesis by simp
  next
    case (LThreshold v)
    hence nc: "\<not> HasPrefix l ''#''" by (auto simp: specLine_def)
    from parseLine_threshold [OF LThreshold, of "n + 1" rec qb] Cons.prems(2)
    have "parseLoop ls (n + 1) err (rec\<lparr>hashThreshold := v\<rparr>) stateStart qb
            = (Inl EOF, rest, n')"
      by simp
    from Cons.IH [OF n1 this] obtain vs ds where
      "specDirectives False ls = map DThreshold vs @ ds" "ds = [] \<or> ds = [DDangling]"
      by auto
    with LThreshold nc have "specDirectives False (l # ls) = map DThreshold (v # vs) @ ds
        \<and> (ds = [] \<or> ds = [DDangling])" by simp
    thus ?thesis by blast
  next
    case LRecord
    hence nc: "\<not> HasPrefix l ''#''" by (auto simp: specLine_def)
    from parseLine_record [OF LRecord, of "n + 1" rec qb] Cons.prems(2)
    obtain rec' st' where c: "?step = Continue rec' st' qb"
      and s: "st' = stateStatement \<or> st' = stateQuery"
      by auto
    from c Cons.prems(2) have "parseLoop ls (n + 1) err rec' st' qb = (Inl EOF, rest, n')"
      by simp
    from body_EOF_comments [OF s n1 this] have co: "commentsOnly ls" .
    with LRecord nc have "specDirectives False (l # ls) = map DThreshold [] @ [DDangling]"
      by (simp add: specDirectives_comments)
    thus ?thesis by blast
  next
    case LOther
    hence nc: "\<not> HasPrefix l ''#''" by (auto simp: specLine_def)
    from parseLine_other [OF LOther, of "n + 1" rec qb] Cons.prems(2)
    obtain rec' where c: "?step = Continue rec' stateStart qb" by auto
    from c Cons.prems(2) have "parseLoop ls (n + 1) err rec' stateStart qb = (Inl EOF, rest, n')"
      by simp
    from Cons.IH [OF n1 this] LOther nc show ?thesis by simp
  qed
qed

lemma parseRecord_record:
  assumes "parseRecord scanner = (Inr r, scanner')"
  shows "\<exists>vs. specDirectives False (pending scanner) =
               map DThreshold vs @ [if recordType r = Halt then DHalt else DRecord]
                 @ specDirectives False (pending scanner')
             \<and> hashThreshold r = last (hashThresholdUnset # vs)"
proof -
  obtain res rest n' where
    pl: "parseLoop (pending scanner) (LineNum scanner) (readErr scanner) newRecord stateStart []
           = (res, rest, n')"
    by (cases "parseLoop (pending scanner) (LineNum scanner) (readErr scanner)
                 newRecord stateStart []") auto
  with assms have "res = Inr r" and "pending scanner' = rest"
    by (auto simp: parseRecord_def)
  with start_record [of newRecord "pending scanner" "LineNum scanner" "readErr scanner"
         "[]" r rest n'] pl
  show ?thesis by (simp add: newRecord_def)
qed

lemma parseRecord_eof:
  assumes "0 \<le> LineNum scanner" and "parseRecord scanner = (Inl EOF, scanner')"
  shows "\<exists>vs ds. specDirectives False (pending scanner) = map DThreshold vs @ ds
            \<and> (ds = [] \<or> ds = [DDangling])"
proof -
  obtain res rest n' where
    pl: "parseLoop (pending scanner) (LineNum scanner) (readErr scanner) newRecord stateStart []
           = (res, rest, n')"
    by (cases "parseLoop (pending scanner) (LineNum scanner) (readErr scanner)
                 newRecord stateStart []") auto
  with assms have "res = Inl EOF" by (auto simp: parseRecord_def)
  with start_eof [OF assms(1), of "pending scanner" "readErr scanner" newRecord "[]" rest n'] pl
  show ?thesis by simp
qed

lemma parseRecord_counter:
  assumes "parseRecord scanner = (res, scanner')"
  shows "LineNum scanner \<le> LineNum scanner'"
proof -
  obtain res' rest n' where
    pl: "parseLoop (pending scanner) (LineNum scanner) (readErr scanner) newRecord stateStart []
           = (res', rest, n')"
    by (cases "parseLoop (pending scanner) (LineNum scanner) (readErr scanner)
                 newRecord stateStart []") auto
  with assms have "LineNum scanner' = n'" by (auto simp: parseRecord_def)
  with parseLoop_counter [OF pl] show ?thesis by simp
qed

lemma inheritThreshold_type [simp]:
  "recordType (inheritThreshold prev r) = recordType r"
  by (simp add: inheritThreshold_def split: option.splits)

lemma recordDirectiveCount_simps [simp]:
  "recordDirectiveCount (map DThreshold vs @ ds) = recordDirectiveCount ds"
  "recordDirectiveCount [] = 0"
  "recordDirectiveCount (DDangling # ds) = recordDirectiveCount ds"
  "recordDirectiveCount (DHalt # ds) = recordDirectiveCount ds"
  "recordDirectiveCount (DRecord # ds) = Suc (recordDirectiveCount ds)"
  by (induction vs) (simp_all add: recordDirectiveCount_def)

lemma parseRecords_count:
  "parseRecords scanner prev records = Inr out \<Longrightarrow> 0 \<le> LineNum scanner \<Longrightarrow>
   nonHaltCount out =
     nonHaltCount records + recordDirectiveCount (specDirectives False (pending scanner))"
proof (induction scanner prev records rule: parseRecords.induct)
  case (1 scanner prev records)
  obtain res scanner' where pr: "parseRecord scanner = (res, scanner')"
    by (cases "parseRecord scanner") auto
  show ?case
  proof (cases res)
    case (Inl e)
    with pr "1.prems"(1) have e: "e = EOF" and o: "out = records"
      by (auto split: if_splits)
    from parseRecord_eof [OF "1.prems"(2)] pr Inl e
    obtain vs ds where "specDirectives False (pending scanner) = map DThreshold vs @ ds"
      "ds = [] \<or> ds = [DDangling]" by blast
    with o show ?thesis by auto
  next
    case (Inr r)
    let ?r = "inheritThreshold prev r"
    from pr Inr "1.prems"(1)
    have rec: "parseRecords scanner' (Some ?r) (records @ [?r]) = Inr out" by simp
    from parseRecord_counter [OF pr] "1.prems"(2) have n: "0 \<le> LineNum scanner'" by simp
    from "1.IH" [OF pr [symmetric] Inr rec n]
    have ih: "nonHaltCount out = nonHaltCount (records @ [?r])
                + recordDirectiveCount (specDirectives False (pending scanner'))" .
    from parseRecord_record pr Inr obtain vs where
      d: "specDirectives False (pending scanner) =
            map DThreshold vs @ [if recordType r = Halt then DHalt else DRecord]
              @ specDirectives False (pending scanner')" by blast
    show ?thesis unfolding d using ih by (simp add: nonHaltCount_def)
  qed
qed

lemma thresholdsOf_thresholds:
  "thresholdsOf cur (map DThreshold vs @ ds) = thresholdsOf (last (cur # vs)) ds"
  by (induction vs arbitrary: cur) auto

lemma parseRecords_thresholds:
  "parseRecords scanner prev records = Inr out \<Longrightarrow> 0 \<le> LineNum scanner \<Longrightarrow>
   DThreshold hashThresholdUnset \<notin> set (specDirectives False (pending scanner)) \<Longrightarrow>
   map hashThreshold out =
     map hashThreshold records
       @ thresholdsOf (currentThreshold prev) (specDirectives False (pending scanner))"
proof (induction scanner prev records rule: parseRecords.induct)
  case (1 scanner prev records)
  obtain res scanner' where pr: "parseRecord scanner = (res, scanner')"
    by (cases "parseRecord scanner") auto
  show ?case
  proof (cases res)
    case (Inl e)
    with pr "1.prems"(1) have e: "e = EOF" and o: "out = records"
      by (auto split: if_splits)
    from parseRecord_eof [OF "1.prems"(2)] pr Inl e
    obtain vs ds where "specDirectives False (pending scanner) = map DThreshold vs @ ds"
      "ds = [] \<or> ds = [DDangling]" by blast
    with o show ?thesis by (auto simp: thresholdsOf_thresholds)
  next
    case (Inr r)
    let ?r = "inheritThreshold prev r"
    from pr Inr "1.prems"(1)
    have rec: "parseRecords scanner' (Some ?r) (records @ [?r]) = Inr out" by simp
    from parseRecord_counter [OF pr] "1.prems"(2) have n: "0 \<le> LineNum scanner'" by simp
    from parseRecord_record pr Inr obtain vs where
      d: "specDirectives False (pending scanner) =
            map DThreshold vs @ [if recordType r = Halt then DHalt else DRecord]
              @ specDirectives False (pending scanner')"
      and h: "hashThreshold r = last (hashThresholdUnset # vs)" by blast
    from d "1.prems"(3)
    have u: "DThreshold hashThresholdUnset \<notin> set (specDirectives False (pending scanner'))"
      and v: "hashThresholdUnset \<notin> set vs" by auto
    from "1.IH" [OF pr [symmetric] Inr rec n u]
    have ih: "map hashThreshold out = map hashThreshold (records @ [?r])
                @ thresholdsOf (currentThreshold (Some ?r))
                    (specDirectives False (pending scanner'))" .
    have t: "hashThreshold ?r = last (currentThreshold prev # vs)"
    proof (cases vs)
      case Nil
      with h show ?thesis
        by (simp add: inheritThreshold_def currentThreshold_def split: option.splits)
    next
      case (Cons a as)
      with v have "last vs \<noteq> hashThresholdUnset" by (metis last_in_set list.distinct(1))
      with h Cons show ?thesis by (simp add: inheritThreshold_def)
    qed
    show ?thesis unfolding d using ih t
      by (simp add: thresholdsOf_thresholds currentThreshold_def)
  qed
qed

lemma inheritThreshold_set:
  "(\<forall>p. prev = Some p \<longrightarrow> hashThreshold p \<noteq> hashThresholdUnset) \<Longrightarrow>
   hashThreshold (inheritThreshold prev r) \<noteq> hashThresholdUnset"
  by (auto simp: inheritThreshold_def defaultHashThreshold_def hashThresholdUnset_def
           split: option.splits)

lemma parseRecords_set:
  "parseRecords scanner prev records = Inr out \<Longrightarrow>
   (\<forall>p. prev = Some p \<longrightarrow> hashThreshold p \<noteq> hashThresholdUnset) \<Longrightarrow>
   (\<forall>r\<in>set records. hashThreshold r \<noteq> hashThresholdUnset) \<Longrightarrow>
   (\<forall>r\<in>set out. hashThreshold r \<noteq> hashThresholdUnset)"
proof (induction scanner prev records rule: parseRecords.induct)
  case (1 scanner prev records)
  obtain res scanner' where pr: "parseRecord scanner = (res, scanner')"
    by (cases "parseRecord scanner") auto
  show ?case
  proof (cases res)
    case (Inl e)
    with pr "1.prems" show ?thesis by (auto split: if_splits)
  next
    case (Inr r)
    let ?r = "inheritThreshold prev r"
    from pr Inr "1.prems"(1)
    have rec: "parseRecords scanner' (Some ?r) (records @ [?r]) = Inr out" by simp
    from inheritThreshold_set [OF "1.prems"(2)]
    have s: "hashThreshold ?r \<noteq> hashThresholdUnset" .
    from "1.IH" [OF pr [symmetric] Inr rec] s "1.prems"(3) show ?thesis by auto
  qed
qed

lemma count_dangling_free:
  "DDangling \<notin> set ds \<Longrightarrow> statementDirectiveCount ds = recordDirectiveCount ds"
  unfolding statementDirectiveCount_def recordDirectiveCount_def
  by (induction ds) auto

lemma exampleScript_parse: "ParseTestFile exampleScript None = Inr exampleRecords"
  by code_simp

text \<open>
  C8, as the code has it. For every script that parses without error and does not end
  right after a statement or query directive (with nothing but \<^verbatim>\<open>#\<close>-lines behind it), the
  number of records other than halt records that \<^verbatim>\<open>ParseTestFile\<close> returns is the number
  of statement and query directives in the whole script. A halt directive does not stop
  the parser: it yields a halt record, and the directives after it yield records as well.
\<close>

theorem records_count:
  assumes "ParseTestFile lines err = Inr records"
    and "DDangling \<notin> set (specDirectives False lines)"
  shows "nonHaltCount records = statementDirectiveCount (specDirectives False lines)"
  using parseRecords_count [of "\<lparr>pending = lines, LineNum = 0, readErr = err\<rparr>" None "[]" records]
    assms count_dangling_free
  by (simp add: ParseTestFile_def nonHaltCount_def)

theorem records_count_witness:
  "ParseTestFile exampleScript None = Inr exampleRecords
   \<and> DDangling \<notin> set (specDirectives False exampleScript)
   \<and> nonHaltCount exampleRecords = statementDirectiveCount (specDirectives False exampleScript)
   \<and> nonHaltCount exampleRecords = 2"
proof -
  have d: "DDangling \<notin> set (specDirectives False exampleScript)" by code_simp
  have n: "nonHaltCount exampleRecords = 2" by code_simp
  from records_count [OF exampleScript_parse d] exampleScript_parse d n show ?thesis by simp
qed

text \<open>
  The claim as stated counts the directives before the first \<^verbatim>\<open>halt\<close>: in the first
  script there is none before it, and one record that is no halt record. In the second
  the input ends right after its one directive, and there is no record.
\<close>

theorem records_count_counterexample:
  "ParseTestFile [''halt'', ''statement ok'', ''SELECT 1''] None =
     Inr [\<lparr>recordType = Halt, expectError = False, conditions = [], schema = [],
           sortMode = [], query = [], lineNum = 1, result = [], label = [],
           hashThreshold = 8\<rparr>,
          \<lparr>recordType = Statement, expectError = False, conditions = [], schema = [],
           sortMode = [], query = ''SELECT 1'', lineNum = 3, result = [], label = [],
           hashThreshold = 8\<rparr>]
   \<and> statementDirectiveCount
        (directivesBeforeHalt (specDirectives False [''halt'', ''statement ok'', ''SELECT 1'']))
       = 0
   \<and> ParseTestFile [''statement ok''] None = Inr []
   \<and> statementDirectiveCount (directivesBeforeHalt (specDirectives False [''statement ok'']))
       = 1"
  by code_simp

text \<open>
  C3, as the code has it. No record that \<^verbatim>\<open>ParseTestFile\<close> returns carries the unset
  sentinel. When no \<^verbatim>\<open>hash-threshold\<close> directive of the script has the value of the
  sentinel, -1, the threshold of every record is the value of the most recent
  \<^verbatim>\<open>hash-threshold\<close> directive before it, and 8 when there is none.
\<close>

theorem hashThreshold_propagation:
  assumes "ParseTestFile lines err = Inr records"
  shows "(\<forall>r\<in>set records. hashThreshold r \<noteq> hashThresholdUnset)
       \<and> (DThreshold hashThresholdUnset \<notin> set (specDirectives False lines) \<longrightarrow>
            map hashThreshold records =
              thresholdsOf defaultHashThreshold (specDirectives False lines))"
proof -
  let ?sc = "\<lparr>pending = lines, LineNum = 0, readErr = err\<rparr>"
  from assms have p: "parseRecords ?sc None [] = Inr records" by (simp add: ParseTestFile_def)
  from parseRecords_set [OF p] have "\<forall>r\<in>set records. hashThreshold r \<noteq> hashThresholdUnset"
    by simp
  moreover from parseRecords_thresholds [OF p]
  have "DThreshold hashThresholdUnset \<notin> set (specDirectives False lines) \<longrightarrow>
            map hashThreshold records =
              thresholdsOf defaultHashThreshold (specDirectives False lines)"
    by (simp add: currentThreshold_def)
  ultimately show ?thesis by blast
qed

theorem hashThreshold_propagation_witness:
  "ParseTestFile exampleScript None = Inr exampleRecords
   \<and> DThreshold hashThresholdUnset \<notin> set (specDirectives False exampleScript)
   \<and> map hashThreshold exampleRecords =
       thresholdsOf defaultHashThreshold (specDirectives False exampleScript)
   \<and> map hashThreshold exampleRecords = [8, 16, 16]
   \<and> hashThresholdUnset \<notin> set (map hashThreshold exampleRecords)"
proof -
  have d: "DThreshold hashThresholdUnset \<notin> set (specDirectives False exampleScript)"
    by code_simp
  have n: "map hashThreshold exampleRecords = [8, 16, 16]" by code_simp
  have u: "hashThresholdUnset \<notin> set (map hashThreshold exampleRecords)" by code_simp
  from hashThreshold_propagation [OF exampleScript_parse] d n u exampleScript_parse
  show ?thesis by simp
qed

text \<open>
  The directive \<^verbatim>\<open>hash-threshold -1\<close> sets the sentinel itself: the record gets the
  default, not the value of the directive.
\<close>

theorem hashThreshold_propagation_counterexample:
  "ParseTestFile [''hash-threshold -1'', ''statement ok'', ''SELECT 1''] None =
     Inr [\<lparr>recordType = Statement, expectError = False, conditions = [], schema = [],
           sortMode = [], query = ''SELECT 1'', lineNum = 3, result = [], label = [],
           hashThreshold = 8\<rparr>]
   \<and> thresholdsOf defaultHashThreshold
        (specDirectives False [''hash-threshold -1'', ''statement ok'', ''SELECT 1'']) = [- 1]"
  by code_simp

lemma alike_refl: "alike r r"
  by (simp add: alike_def)

lemma alikeI: "(lineNum r = 0) = (k = 0) \<Longrightarrow> alike r (r\<lparr>lineNum := k\<rparr>)"
  by (simp add: alike_def)

lemma parseStart_sim:
  assumes "(lineNum r = 0) = (k = 0)" and "n \<noteq> 0" and "m \<noteq> 0"
  shows "stepAlike (parseStart flds n r qb) (parseStart flds m (r\<lparr>lineNum := k\<rparr>) qb)"
  using assms
  by (simp add: parseStart_def Let_def indexPanic_def stepAlike_def alike_def alikeRes_def
        sameError_def split: list.split)

lemma parseLine_sim:
  assumes "alike r r'" and "n \<noteq> 0" and "m \<noteq> 0"
  shows "stepAlike (parseLine l n r st qb) (parseLine l m r' st qb)"
proof -
  from assms(1) obtain k where k: "r' = r\<lparr>lineNum := k\<rparr>" "(lineNum r = 0) = (k = 0)"
    by (auto simp: alike_def)
  show ?thesis
  proof (cases st)
    case stateStart
    show ?thesis
    proof (cases "HasPrefix l ''#'' \<or> isBlankLine l")
      case True
      with stateStart assms(1) show ?thesis
        by (auto simp: parseLine_def Let_def stepAlike_def)
    next
      case False
      hence "parseLine l n r stateStart qb = parseStart (Fields (removeComments l)) n r qb"
        "parseLine l m r' stateStart qb = parseStart (Fields (removeComments l)) m r' qb"
        by (simp_all add: parseLine_start)
      with stateStart k(1) parseStart_sim [OF k(2) assms(2,3)] show ?thesis by simp
    qed
  next
    case stateStatement
    then show ?thesis using k assms(2,3)
      by (simp add: parseLine_def Let_def setLineNum_def stepAlike_def alike_def alikeRes_def)
  next
    case stateQuery
    then show ?thesis using k assms(2,3)
      by (simp add: parseLine_def Let_def setLineNum_def stepAlike_def alike_def alikeRes_def)
  next
    case stateResults
    then show ?thesis using k assms(2,3)
      by (simp add: parseLine_def Let_def setLineNum_def stepAlike_def alike_def alikeRes_def)
  qed
qed

lemma alikeE:
  assumes "alike r r'"
  obtains k where "r' = r\<lparr>lineNum := k\<rparr>" and "(lineNum r = 0) = (k = 0)"
  using assms unfolding alike_def by blast

lemma parseEnd_sim:
  assumes "alike r r'"
  shows "alikeRes (parseEnd err r st qb) (parseEnd err r' st qb)"
proof -
  from assms obtain k where k: "r' = r\<lparr>lineNum := k\<rparr>" "(lineNum r = 0) = (k = 0)"
    by (rule alikeE)
  show ?thesis unfolding k(1) using k(2)
    by (cases st)
       (simp_all add: parseEnd_def alike_def alikeRes_def sameError_def split: option.splits)
qed

lemma dropComments_simps [simp]:
  "dropComments [] = []"
  "HasPrefix l ''#'' \<Longrightarrow> dropComments (l # ls) = dropComments ls"
  "\<not> HasPrefix l ''#'' \<Longrightarrow> dropComments (l # ls) = l # dropComments ls"
  by (simp_all add: dropComments_def)

lemma parseLoop_sim:
  assumes "parseLoop ls n err r st qb = (res, rest, n')"
    and "alike r r'" and "0 \<le> n" and "0 \<le> m"
  shows "\<exists>res' m'. parseLoop (dropComments ls) m err r' st qb = (res', dropComments rest, m')
           \<and> alikeRes res res' \<and> 0 \<le> m'"
  using assms
proof (induction ls arbitrary: n m r r' st qb)
  case Nil
  then show ?case by (auto simp: parseEnd_sim)
next
  case (Cons l ls)
  show ?case
  proof (cases "HasPrefix l ''#''")
    case True
    with Cons.prems(1) have "parseLoop ls (n + 1) err r st qb = (res, rest, n')"
      by (simp add: parseLine_comment)
    from Cons.IH [OF this Cons.prems(2) _ Cons.prems(4)] Cons.prems(3) True
    show ?thesis by simp
  next
    case False
    from Cons.prems(3,4) have nz: "n + 1 \<noteq> 0" "m + 1 \<noteq> 0" "0 \<le> n + 1" "0 \<le> m + 1"
      by simp_all
    from parseLine_sim [OF Cons.prems(2) nz(1,2), of l st qb]
    have sa: "stepAlike (parseLine l (n + 1) r st qb) (parseLine l (m + 1) r' st qb)" .
    show ?thesis
    proof (cases "parseLine l (n + 1) r st qb")
      case (Continue r1 st1 qb1)
      with sa obtain r1' where
        c': "parseLine l (m + 1) r' st qb = Continue r1' st1 qb1" and a: "alike r1 r1'"
        by (auto simp: stepAlike_def split: step.splits)
      from Continue Cons.prems(1)
      have "parseLoop ls (n + 1) err r1 st1 qb1 = (res, rest, n')" by simp
      from Cons.IH [OF this a nz(3,4)] c' False show ?thesis by simp
    next
      case (Return x)
      with sa obtain x' where
        c': "parseLine l (m + 1) r' st qb = Return x'" and a: "alikeRes x x'"
        by (auto simp: stepAlike_def split: step.splits)
      from Return Cons.prems(1) have "res = x" "rest = ls" by simp_all
      with c' a False nz(4) show ?thesis by simp
    qed
  qed
qed

lemma parseRecord_sim:
  assumes "parseRecord sc = (res, sc1)"
    and "pending sc' = dropComments (pending sc)" and "readErr sc' = readErr sc"
    and "0 \<le> LineNum sc" and "0 \<le> LineNum sc'"
  shows "\<exists>res' sc1'. parseRecord sc' = (res', sc1') \<and> alikeRes res res'
           \<and> pending sc1' = dropComments (pending sc1) \<and> readErr sc1' = readErr sc1
           \<and> 0 \<le> LineNum sc1 \<and> 0 \<le> LineNum sc1'"
proof -
  obtain rest n' where
    pl: "parseLoop (pending sc) (LineNum sc) (readErr sc) newRecord stateStart []
           = (res, rest, n')"
    and s1: "sc1 = sc\<lparr>pending := rest, LineNum := n'\<rparr>"
    using assms(1) by (auto simp: parseRecord_def split: prod.splits)
  from parseLoop_sim [OF pl alike_refl assms(4,5)] obtain res' m' where
    pl': "parseLoop (dropComments (pending sc)) (LineNum sc') (readErr sc) newRecord stateStart []
            = (res', dropComments rest, m')"
    and a: "alikeRes res res'" and m: "0 \<le> m'" by blast
  from parseLoop_counter [OF pl] assms(4) have n: "0 \<le> n'" by simp
  from pl' assms(2,3)
  have "parseRecord sc' = (res', sc'\<lparr>pending := dropComments rest, LineNum := m'\<rparr>)"
    by (simp add: parseRecord_def)
  with a s1 m n assms(3) show ?thesis by simp
qed

lemma inheritThreshold_sim:
  assumes "rel_option alike prev prev'" and "alike r r'"
  shows "alike (inheritThreshold prev r) (inheritThreshold prev' r')"
proof -
  from assms(2) obtain k where k: "r' = r\<lparr>lineNum := k\<rparr>" "(lineNum r = 0) = (k = 0)"
    by (rule alikeE)
  show ?thesis
  proof (cases prev)
    case None
    with assms(1) have "prev' = None" by simp
    with None k show ?thesis by (simp add: inheritThreshold_def alike_def)
  next
    case (Some p)
    with assms(1) obtain p' where p': "prev' = Some p'" "alike p p'"
      by (cases prev') auto
    from p'(2) obtain j where "p' = p\<lparr>lineNum := j\<rparr>" by (rule alikeE)
    with Some p'(1) k show ?thesis by (simp add: inheritThreshold_def alike_def)
  qed
qed

lemma sameError_EOF: "sameError e e' \<Longrightarrow> (e = EOF) = (e' = EOF)"
  by (cases e; cases e') (auto simp: sameError_def)

lemma parseRecords_sim:
  "pending sc' = dropComments (pending sc) \<Longrightarrow> readErr sc' = readErr sc \<Longrightarrow>
   0 \<le> LineNum sc \<Longrightarrow> 0 \<le> LineNum sc' \<Longrightarrow>
   rel_option alike prev prev' \<Longrightarrow> list_all2 alike recs recs' \<Longrightarrow>
   rel_sum sameError (list_all2 alike) (parseRecords sc prev recs) (parseRecords sc' prev' recs')"
proof (induction sc prev recs arbitrary: sc' prev' recs' rule: parseRecords.induct)
  case (1 sc prev recs)
  obtain res sc1 where pr: "parseRecord sc = (res, sc1)" by (cases "parseRecord sc") auto
  from parseRecord_sim [OF pr "1.prems"(1-4)] obtain res' sc1' where
    pr': "parseRecord sc' = (res', sc1')" and a: "alikeRes res res'"
    and s: "pending sc1' = dropComments (pending sc1)" "readErr sc1' = readErr sc1"
           "0 \<le> LineNum sc1" "0 \<le> LineNum sc1'"
    by blast
  show ?case
  proof (cases res)
    case (Inl e)
    with a obtain e' where e': "res' = Inl e'" "sameError e e'"
      by (cases res') (auto simp: alikeRes_def)
    from sameError_EOF [OF e'(2)] have "(e = EOF) = (e' = EOF)" .
    with pr pr' Inl e' "1.prems"(6) show ?thesis
      by (subst parseRecords.simps, subst (2) parseRecords.simps) auto
  next
    case (Inr r)
    with a obtain r' where r': "res' = Inr r'" "alike r r'"
      by (cases res') (auto simp: alikeRes_def)
    let ?r = "inheritThreshold prev r" and ?r' = "inheritThreshold prev' r'"
    from inheritThreshold_sim [OF "1.prems"(5) r'(2)] have ar: "alike ?r ?r'" .
    hence "rel_option alike (Some ?r) (Some ?r')" by simp
    moreover from ar "1.prems"(6) have "list_all2 alike (recs @ [?r]) (recs' @ [?r'])"
      by (simp add: list_all2_appendI)
    ultimately have
      "rel_sum sameError (list_all2 alike) (parseRecords sc1 (Some ?r) (recs @ [?r]))
         (parseRecords sc1' (Some ?r') (recs' @ [?r']))"
      using "1.IH" [OF pr [symmetric] Inr s] by blast
    with pr pr' Inr r' show ?thesis
      by (subst parseRecords.simps, subst (2) parseRecords.simps) simp
  qed
qed

lemma alike_same:
  assumes "alike r r'"
  shows "sameRecord r r'"
proof -
  from assms obtain k where "r' = r\<lparr>lineNum := k\<rparr>" by (rule alikeE)
  thus ?thesis by (simp add: sameRecord_def)
qed

lemma comment_lines_invisible:
  "rel_sum sameError (list_all2 sameRecord)
     (ParseTestFile lines err) (ParseTestFile (dropComments lines) err)"
proof -
  have "rel_sum sameError (list_all2 alike)
     (ParseTestFile lines err) (ParseTestFile (dropComments lines) err)"
    unfolding ParseTestFile_def by (rule parseRecords_sim) simp_all
  moreover have "list_all2 alike xs ys \<Longrightarrow> list_all2 sameRecord xs ys" for xs ys
    by (erule list_all2_mono) (rule alike_same)
  ultimately show ?thesis
    by (cases "ParseTestFile lines err"; cases "ParseTestFile (dropComments lines) err") auto
qed

text \<open>
  C6, as the code has it. A line whose first character is \<^verbatim>\<open>#\<close> is skipped in every
  state of the parser: the record under construction, the state and the text collected
  so far are what they were, only the line counter advances, and the line causes no
  failure. So a script and the same script without these lines parse alike: to the same
  records but for their line numbers, or to the same failure.
\<close>

theorem comment_line_skipped:
  "(HasPrefix line ''#'' \<longrightarrow>
      parseLoop (line # rest) n err record state qb
        = parseLoop rest (n + 1) err record state qb)
   \<and> rel_sum sameError (list_all2 sameRecord)
        (ParseTestFile lines err) (ParseTestFile (dropComments lines) err)"
  using comment_lines_invisible by (simp add: parseLine_comment)

theorem comment_line_skipped_witness:
  "HasPrefix ''# SELECT 2'' ''#''
   \<and> parseLoop [''# SELECT 2'', ''SELECT 1''] 1 None
        (newRecord\<lparr>recordType := Statement\<rparr>) stateStatement []
     = parseLoop [''SELECT 1''] 2 None (newRecord\<lparr>recordType := Statement\<rparr>) stateStatement []
   \<and> parseLoop [''SELECT 1''] 2 None (newRecord\<lparr>recordType := Statement\<rparr>) stateStatement []
     = (Inr (newRecord\<lparr>recordType := Statement, query := ''SELECT 1'', lineNum := 3\<rparr>), [], 3)
   \<and> rel_sum sameError (list_all2 sameRecord)
        (Inr exampleRecords) (ParseTestFile (dropComments exampleScript) None)"
proof -
  have h: "HasPrefix ''# SELECT 2'' ''#''" by code_simp
  have e: "parseLoop [''SELECT 1''] 2 None (newRecord\<lparr>recordType := Statement\<rparr>) stateStatement []
     = (Inr (newRecord\<lparr>recordType := Statement, query := ''SELECT 1'', lineNum := 3\<rparr>), [], 3)"
    by code_simp
  from comment_line_skipped [of "''# SELECT 2''" "[''SELECT 1'']" 1 None
        "newRecord\<lparr>recordType := Statement\<rparr>" stateStatement "[]" exampleScript]
       h e exampleScript_parse
  show ?thesis by simp
qed

text \<open>
  A comment line that starts with a blank is not skipped: before a directive it ends the
  parse with a panic, and inside a statement it adds its blank to the text.
\<close>

theorem comment_line_skipped_counterexample:
  "ParseTestFile ['' # a comment'', ''statement ok'', ''SELECT 1''] None
     = Inl (Panic ''index out of range'')
   \<and> ParseTestFile [''statement ok'', ''SELECT 1'', '' # a comment'', ''FROM t''] None
     = Inr [\<lparr>recordType = Statement, expectError = False, conditions = [], schema = [],
             sortMode = [], query = ''SELECT 1 FROM t'', lineNum = 2, result = [],
             label = [], hashThreshold = 8\<rparr>]
   \<and> ParseTestFile [''statement ok'', ''SELECT 1'', ''FROM t''] None
     = Inr [\<lparr>recordType = Statement, expectError = False, conditions = [], schema = [],
             sortMode = [], query = ''SELECT 1FROM t'', lineNum = 2, result = [],
             label = [], hashThreshold = 8\<rparr>]"
  by code_simp

text \<open>
  C7. The claim says that a query whose body runs to the end of the input is returned with
  the text collected so far. The code returns it with an empty query text: at the end of
  the input \<^verbatim>\<open>parseRecord\<close> copies the builder into the record in \<^verbatim>\<open>stateStatement\<close> only.
  A statement in the same place keeps its text.
\<close>

theorem query_at_end_of_input:
  "ParseTestFile [''query I nosort'', ''SELECT 1''] None
     = Inr [\<lparr>recordType = Query, expectError = False, conditions = [], schema = ''I'',
             sortMode = ''nosort'', query = [], lineNum = 2, result = [], label = [],
             hashThreshold = 8\<rparr>]
   \<and> ParseTestFile [''statement ok'', ''SELECT 1''] None
     = Inr [\<lparr>recordType = Statement, expectError = False, conditions = [], schema = [],
             sortMode = [], query = ''SELECT 1'', lineNum = 2, result = [], label = [],
             hashThreshold = 8\<rparr>]"
  by code_simp

section \<open>The run loop and the verifier\<close>

lemma NumResults_query: "recordType r = Query \<Longrightarrow> \<exists>n. NumResults r = Inr n"
  by (simp add: NumResults_def)


lemma executeRecord_ineligible:
  assumes "\<not> ShouldExecuteForEngine r (EngineStr harness)"
  shows "executeRecord md5hex harness r w =
           (([], [], False, None),
            if recordType r = Halt then w else logLine r Skipped w)"
  using assms by (cases "recordType r") (simp_all add: executeRecord_def executeBody_def)

text \<open>
  C1. The claim says that after a record that is not eligible for the engine of the
  backend the run loop logs a skip and goes on with the records behind it. The code logs
  the skip and makes no call to the backend, but \<^verbatim>\<open>executeRecord\<close> returns
  \<^verbatim>\<open>cont = false\<close>, as it does for a halt record, and the loop of \<^verbatim>\<open>runTestFile\<close>
  ends: in the script below the first statement is skipped for \<^verbatim>\<open>mysql\<close> and the second
  one, which is eligible and which the backend accepts when it is run alone, is never
  executed.
\<close>

theorem skip_ends_the_run:
  "ParseTestFile skipScript None = Inr [skippedStatement, plainStatement]
   \<and> ShouldExecuteForEngine skippedStatement (EngineStr (countingHarness ''mysql'')) = False
   \<and> ShouldExecuteForEngine plainStatement (EngineStr (countingHarness ''mysql'')) = True
   \<and> executeRecord (\<lambda>s. s) (countingHarness ''mysql'') skippedStatement freshWorld
       = (([], [], False, None), \<lparr>backend = 0, printed = [(3, Skipped)]\<rparr>)
   \<and> runTestFile (\<lambda>s. s) (countingHarness ''mysql'') skipScript None freshWorld
       = Inr \<lparr>backend = 0, printed = [(3, Skipped)]\<rparr>
   \<and> runRecords (\<lambda>s. s) (countingHarness ''mysql'') [plainStatement] freshWorld
       = \<lparr>backend = 1, printed = [(6, Ok)]\<rparr>"
  by code_simp




lemma verifySchema_iff:
  assumes "recordType r = Query"
  shows "fst (verifySchema r schemaStr w) =
           Inr (schemaStr = schema r
                \<or> (NumResults r = Inr 0
                    \<and> list_all (\<lambda>c. c = CHR ''I'') (schema r)
                    \<and> list_all (\<lambda>c. c = CHR ''I'' \<or> c = CHR ''R'') schemaStr
                    \<and> length schemaStr = length (schema r)))"
proof -
  from assms obtain n where n: "NumResults r = Inr n" using NumResults_query by blast
  show ?thesis
  proof (cases "schemaStr = schema r")
    case True
    then show ?thesis by (simp add: verifySchema_def)
  next
    case False
    show ?thesis
    proof (cases "length schemaStr = length (schema r)")
      case True
      with False have "schemaStr \<noteq> []" "schema r \<noteq> []" by auto
      with False True n show ?thesis
        by (auto simp: verifySchema_def allIs_def isAndRs_def)
    next
      case ne: False
      with False show ?thesis by (simp add: verifySchema_def)
    qed
  qed
qed

text \<open>
  C5. The claim says that an observed schema that differs from the schema of the record
  passes the check only when the record expects no value. The check asks \<^verbatim>\<open>NumResults\<close>
  for the expected number, and \<^verbatim>\<open>NumResults\<close> does not give the number a hash line
  announces when the entry holds more than the pattern. The parser cuts the comment off
  a result line and keeps the blank before it; \<^verbatim>\<open>ReplaceAllString\<close> replaces the match
  and keeps that blank; \<^verbatim>\<open>Atoi\<close> fails on \<^verbatim>\<open>"30 "\<close>, its error is dropped and the
  number is 0. So the record of the script below, which expects 30 values of schema
  \<^verbatim>\<open>I\<close>, passes the schema check with the observed schema \<^verbatim>\<open>R\<close>. The same record
  without the comment expects 30 values and fails the check.
\<close>

theorem commented_hash_line:
  "ParseTestFile hashScript None = Inr [hashRecord]
   \<and> IsHashResult hashRecord
   \<and> hashReplaceAll True (result hashRecord ! 0) = ''30 ''
   \<and> NumResults hashRecord = Inr 0
   \<and> verifySchema hashRecord ''R'' idleWorld = (Inr True, idleWorld)
   \<and> ParseTestFile (butlast hashScript @ [''30 values hashing to 3c13dee48d9356ae19af2515e05e6b54''])
        None
       = Inr [hashRecord\<lparr>result := [''30 values hashing to 3c13dee48d9356ae19af2515e05e6b54'']\<rparr>]
   \<and> NumResults
        (hashRecord\<lparr>result := [''30 values hashing to 3c13dee48d9356ae19af2515e05e6b54'']\<rparr>)
       = Inr 30
   \<and> verifySchema
        (hashRecord\<lparr>result := [''30 values hashing to 3c13dee48d9356ae19af2515e05e6b54'']\<rparr>)
        ''R'' idleWorld
       = (Inr False, \<lparr>backend = (), printed = [(2, SchemasDiffer ''I'' ''R'')]\<rparr>)"
  by code_simp

text \<open>
  C9. The claim says that a query directive without a sort mode gives a record with one of
  the three sort modes, on which \<^verbatim>\<open>SortResults\<close> cannot panic. The parser leaves the sort
  mode of such a record empty, \<^verbatim>\<open>SortResults\<close> panics on it, and \<^verbatim>\<open>executeRecord\<close> logs
  the panic as a failure of the record.
\<close>

theorem omitted_sort_mode:
  "ParseTestFile [''query I'', ''SELECT 1'', ''----'', ''1''] None =
     Inr [\<lparr>recordType = Query, expectError = False, conditions = [], schema = ''I'',
           sortMode = [], query = ''SELECT 1'', lineNum = 2, result = [''1''], label = [],
           hashThreshold = 8\<rparr>]
   \<and> SortResults
        \<lparr>recordType = Query, expectError = False, conditions = [], schema = ''I'',
         sortMode = [], query = ''SELECT 1'', lineNum = 2, result = [''1''], label = [],
         hashThreshold = 8\<rparr> [''1'']
       = Inl ''Uncrecognized sort mode ''
   \<and> executeRecord (\<lambda>s. s) (fixedHarness ''mysql'' ''I'' [''1''])
        \<lparr>recordType = Query, expectError = False, conditions = [], schema = ''I'',
         sortMode = [], query = ''SELECT 1'', lineNum = 2, result = [''1''], label = [],
         hashThreshold = 8\<rparr> idleWorld
       = (([], [], True, None),
          \<lparr>backend = (), printed = [(2, CaughtPanic ''Uncrecognized sort mode '')]\<rparr>)"
  by code_simp

text \<open>
  Two rows of the same width that \<open>Less\<close> orders in neither direction are the same row:
  the order in which an unstable sort leaves them cannot be seen.
\<close>

lemma Less_total:
  "length rowI = length rowJ \<Longrightarrow> \<not> Less rowI rowJ \<Longrightarrow> \<not> Less rowJ rowI \<Longrightarrow> rowI = rowJ"
proof (induction rowI rowJ rule: Less.induct)
  case (1 rowJ)
  then show ?case by simp
next
  case (2 a rowI)
  then show ?case by simp
next
  case (3 a rowI b rowJ)
  from "3.prems"(2,3) have ab: "a = b"
    by (cases "a < b"; cases "b < a") (auto split: if_splits)
  with "3.prems" have "\<not> Less rowI rowJ" "\<not> Less rowJ rowI" by (auto split: if_splits)
  with "3.IH" "3.prems"(1) ab show ?case by simp
qed

lemma mset_insertBy: "mset (insertBy lt x xs) = add_mset x (mset xs)"
  by (induction xs) auto

lemma mset_sortBy: "mset (sortBy lt xs) = mset xs"
  unfolding sortBy_def by (induction xs) (auto simp: mset_insertBy)

lemma mset_concat_insertBy:
  "mset (concat (insertBy lt x xs)) = mset x + mset (concat xs)"
  by (induction xs) auto

lemma mset_concat_sortBy: "mset (concat (sortBy lt xs)) = mset (concat xs)"
  unfolding sortBy_def by (induction xs) (auto simp: mset_concat_insertBy)

lemma concat_toRows: "n * k \<le> length vs \<Longrightarrow> concat (toRows k n vs) = take (n * k) vs"
proof (induction n arbitrary: vs)
  case 0
  then show ?case by simp
next
  case (Suc n)
  from Suc.prems have "n * k \<le> length (drop k vs)" by simp
  from Suc.IH [OF this] have "concat (toRows k n (drop k vs)) = take (n * k) (drop k vs)" .
  then show ?case by (simp add: take_add add.commute)
qed

lemma SortResults_mset:
  assumes "SortResults r results = Inr results'"
  shows "mset results' = mset results"
proof -
  {
    fix k :: nat
    let ?n = "length results div k"
    have "?n * k \<le> length results" by simp
    from concat_toRows [OF this]
    have c: "concat (toRows k ?n results) = take (?n * k) results" .
    have "mset (concat (sortBy Less (toRows k ?n results)) @ drop (?n * k) results)
          = mset (concat (toRows k ?n results) @ drop (?n * k) results)"
      by (simp add: mset_concat_sortBy)
    also have "\<dots> = mset (take (?n * k) results @ drop (?n * k) results)"
      by (simp only: c)
    also have "\<dots> = mset results" by (simp only: append_take_drop_id)
    finally have "mset (concat (sortBy Less (toRows k ?n results)) @ drop (?n * k) results)
          = mset results" .
  }
  with assms show ?thesis
    by (auto simp: SortResults_def Let_def mset_sortBy split: if_splits sum.splits)
qed

lemma view_length: "inside m s \<Longrightarrow> length (view m s) = len s"
  by (auto simp: view_def inside_def)

lemma SortResults_length:
  "SortResults r results = Inr results' \<Longrightarrow> length results' = length results"
  by (drule SortResults_mset) (rule mset_eq_length)

lemma storeElems_structs [simp]:
  "structs (storeElems s vs m) = structs m"
  "resultSlices (storeElems s vs m) = resultSlices m"
  by (simp_all add: storeElems_def)

lemma storeElems_view:
  "inside m s \<Longrightarrow> length vs = len s \<Longrightarrow> view (storeElems s vs m) s = vs"
  by (simp add: storeElems_def view_def inside_def)

lemma splice_length:
  "lo + n \<le> length xs \<Longrightarrow> length vs = n \<Longrightarrow>
   length (take lo xs @ vs @ drop (lo + n) xs) = length xs"
  by simp

lemma splice_nth:
  "lo + n \<le> length xs \<Longrightarrow> length vs = n \<Longrightarrow> i < lo \<or> lo + n \<le> i \<Longrightarrow>
   (take lo xs @ vs @ drop (lo + n) xs) ! i = xs ! i"
  by (auto simp: nth_append)

lemma window_eq:
  assumes "length ys = length xs"
    and "\<And>i. lo \<le> i \<Longrightarrow> i < lo + n \<Longrightarrow> i < length xs \<Longrightarrow> ys ! i = xs ! i"
  shows "take n (drop lo ys) = take n (drop lo xs)"
proof (rule nth_equalityI)
  show "length (take n (drop lo ys)) = length (take n (drop lo xs))"
    using assms(1) by simp
next
  fix i assume "i < length (take n (drop lo ys))"
  hence i: "i < n" "lo + i < length xs" using assms(1) by auto
  with assms(2) [of "lo + i"] have "ys ! (lo + i) = xs ! (lo + i)" by simp
  with i assms(1) show "take n (drop lo ys) ! i = take n (drop lo xs) ! i" by simp
qed

lemma storeElems_other:
  assumes "inside m s" and "length vs = len s" and "\<not> overlap t s"
  shows "view (storeElems s vs m) t = view m t"
proof (cases "array t = array s")
  case False
  then show ?thesis by (simp add: storeElems_def view_def)
next
  case True
  define xs where "xs = arrays m (array s)"
  define ys where "ys = take (low s) xs @ vs @ drop (low s + len s) xs"
  from assms(1) have v: "low s + len s \<le> length xs" by (simp add: inside_def xs_def)
  from splice_length [OF v assms(2)] have l: "length ys = length xs" by (simp add: ys_def)
  have "take (len t) (drop (low t) ys) = take (len t) (drop (low t) xs)"
  proof (rule window_eq [OF l])
    fix i assume i: "low t \<le> i" "i < low t + len t" "i < length xs"
    with assms(3) True have "i < low s \<or> low s + len s \<le> i"
      by (auto simp: overlap_def)
    from splice_nth [OF v assms(2) this] show "ys ! i = xs ! i" by (simp add: ys_def)
  qed
  with True show ?thesis by (simp add: storeElems_def view_def xs_def ys_def)
qed

lemma storeElems_same: "inside m s \<Longrightarrow> storeElems s (view m s) m = m"
proof -
  assume "inside m s"
  let ?xs = "arrays m (array s)"
  have "take (low s) ?xs @ take (len s) (drop (low s) ?xs) @ drop (low s + len s) ?xs = ?xs"
    by (metis append_take_drop_id drop_drop add.commute)
  thus ?thesis by (simp add: storeElems_def view_def)
qed

lemma load_storeElems:
  assumes "inside m s" and "length vs = len s" and "\<not> overlap (resultSlices m q) s"
  shows "load (storeElems s vs m) q = load m q"
  using storeElems_other [OF assms] by (simp add: load_def)

lemma verifyResults_mem_memory:
  assumes "verifyResults_mem md5hex p s w m = (res, w', m')"
  shows "if NumResults (load m p) = Inr (int (len s)) then
           (case SortResults (load m p) (view m s) of
              Inl pn \<Rightarrow> res = Inl pn \<and> m' = m
            | Inr vs \<Rightarrow> m' = storeElems s vs m)
         else m' = m"
  using assms
  by (auto simp: verifyResults_mem_def verifyRows_mem_def verifyHash_mem_def
      SortResults_mem_def Let_def
      split: sum.splits if_splits option.splits prod.splits)

text \<open>
  When the slice of observed values shares no element with the expected values of the
  record, the functions on the memory do what the functions on values do, and the list
  those return is the contents of the slice afterwards.
\<close>

lemma verifyResults_mem_separate:
  assumes "inside m s" and "\<not> overlap (resultSlices m p) s"
  shows "verifyResults md5hex (load m p) (view m s) w =
           (case verifyResults_mem md5hex p s w m of
              (res, w', m') \<Rightarrow> (map_sum id (\<lambda>u. view m' s) res, w'))"
proof (cases "SortResults (load m p) (view m s)")
  case (Inl pn)
  note view_length [OF assms(1), simp]
  from Inl show ?thesis
    by (auto simp: verifyResults_def verifyResults_mem_def verifyRows_def verifyRows_mem_def
        verifyHash_def verifyHash_mem_def SortResults_mem_def split: sum.splits)
next
  case (Inr vs)
  from SortResults_length [OF Inr] view_length [OF assms(1)] have l: "length vs = len s" by simp
  note view_length [OF assms(1), simp] storeElems_view [OF assms(1) l, simp]
    load_storeElems [OF assms(1) l assms(2), simp]
  from Inr show ?thesis
    by (auto simp: verifyResults_def verifyResults_mem_def verifyRows_def verifyRows_mem_def
        verifyHash_def verifyHash_mem_def SortResults_mem_def Let_def logLine_def
        split: sum.splits option.splits)
qed

text \<open>
  \<^verbatim>\<open>SortResults\<close> writes wherever the slice it is given lies. Given the expected values
  of the record itself, it reorders them: the record no longer expects 2, 1.
\<close>

lemma aliased_slice_is_written:
  "result (load aliasedMemory 0) = [''2'', ''1'']
   \<and> overlap (resultSlices aliasedMemory 0) (resultSlices aliasedMemory 0)
   \<and> fst (SortResults_mem 0 (resultSlices aliasedMemory 0) aliasedMemory)
       = Inr (resultSlices aliasedMemory 0)
   \<and> result (load (snd (SortResults_mem 0 (resultSlices aliasedMemory 0) aliasedMemory)) 0)
       = [''1'', ''2'']"
  by code_simp

text \<open>
  C10, as the code has it. Verification writes to no \<^verbatim>\<open>Record\<close> struct, and it writes
  to no memory but the elements of the slice of observed values: every slice that shares
  no element with it holds what it held, and so does the expected list of every record
  whose \<^verbatim>\<open>result\<close> is such a slice. The observed values are not copied:
  \<^verbatim>\<open>SortResults\<close> sorts the caller's slice in place. When \<^verbatim>\<open>verifyResults\<close> returns,
  that slice holds the same values as before, in the order \<^verbatim>\<open>SortResults\<close> gives them
  when the number of values is the expected one; and the whole memory is as it was when
  the number is not the expected one, when the sort mode is \<^verbatim>\<open>nosort\<close>, or when
  \<^verbatim>\<open>SortResults\<close> panics.
\<close>

theorem verification_memory:
  assumes "inside m s"
    and "verifyResults_mem md5hex p s w m = (res, w', m')"
  shows "structs m' = structs m \<and> resultSlices m' = resultSlices m
       \<and> (\<forall>t. \<not> overlap t s \<longrightarrow> view m' t = view m t)
       \<and> (\<forall>q. \<not> overlap (resultSlices m q) s \<longrightarrow> load m' q = load m q)
       \<and> mset (view m' s) = mset (view m s)
       \<and> (NumResults (load m p) = Inr (int (len s)) \<longrightarrow>
            (case SortResults (load m p) (view m s) of
               Inl pn \<Rightarrow> res = Inl pn \<and> m' = m
             | Inr vs \<Rightarrow> view m' s = vs))
       \<and> (NumResults (load m p) \<noteq> Inr (int (len s)) \<or> sortMode (load m p) = NoSort
            \<longrightarrow> m' = m)"
proof (cases "NumResults (load m p) = Inr (int (len s))")
  case False
  with verifyResults_mem_memory [OF assms(2)] have "m' = m" by simp
  with False show ?thesis by simp
next
  case True
  show ?thesis
  proof (cases "SortResults (load m p) (view m s)")
    case (Inl pn)
    with True verifyResults_mem_memory [OF assms(2)] have "res = Inl pn" "m' = m" by simp_all
    with True Inl show ?thesis by simp
  next
    case (Inr vs)
    with True verifyResults_mem_memory [OF assms(2)] have m': "m' = storeElems s vs m" by simp
    from SortResults_length [OF Inr] view_length [OF assms(1)] have l: "length vs = len s"
      by simp
    note st = storeElems_view [OF assms(1) l]
    have a: "structs m' = structs m \<and> resultSlices m' = resultSlices m"
      using m' by simp
    have b: "\<forall>t. \<not> overlap t s \<longrightarrow> view m' t = view m t"
      using storeElems_other [OF assms(1) l] m' by simp
    have c: "\<forall>q. \<not> overlap (resultSlices m q) s \<longrightarrow> load m' q = load m q"
      using load_storeElems [OF assms(1) l] m' by simp
    have d: "mset (view m' s) = mset (view m s)"
      using SortResults_mset [OF Inr] st m' by simp
    have e: "NumResults (load m p) = Inr (int (len s)) \<longrightarrow>
              (case SortResults (load m p) (view m s) of
                 Inl pn \<Rightarrow> res = Inl pn \<and> m' = m
               | Inr vs \<Rightarrow> view m' s = vs)"
      using Inr m' st by simp
    have f: "NumResults (load m p) \<noteq> Inr (int (len s)) \<or> sortMode (load m p) = NoSort
              \<longrightarrow> m' = m"
    proof
      assume "NumResults (load m p) \<noteq> Inr (int (len s)) \<or> sortMode (load m p) = NoSort"
      with True have "sortMode (load m p) = NoSort" by simp
      with Inr have "vs = view m s" by (simp add: SortResults_def)
      with m' storeElems_same [OF assms(1)] show "m' = m" by simp
    qed
    from a b c d e f show ?thesis by blast
  qed
qed

theorem verification_memory_witness:
  "inside exampleMemory observed
   \<and> \<not> overlap (resultSlices exampleMemory 0) observed
   \<and> NumResults (load exampleMemory 0) = Inr (int (len observed))
   \<and> SortResults (load exampleMemory 0) (view exampleMemory observed) = Inr [''1'', ''2'']
   \<and> view (snd (snd (verifyResults_mem (\<lambda>s. s) 0 observed idleWorld exampleMemory))) observed
       = [''1'', ''2'']
   \<and> load (snd (snd (verifyResults_mem (\<lambda>s. s) 0 observed idleWorld exampleMemory))) 0
       = load exampleMemory 0"
proof -
  have i: "inside exampleMemory observed" by code_simp
  have o: "\<not> overlap (resultSlices exampleMemory 0) observed" by code_simp
  have n: "NumResults (load exampleMemory 0) = Inr (int (len observed))" by code_simp
  have s: "SortResults (load exampleMemory 0) (view exampleMemory observed) = Inr [''1'', ''2'']"
    by code_simp
  have r: "verifyResults_mem (\<lambda>s. s) 0 observed idleWorld exampleMemory
           = (fst (verifyResults_mem (\<lambda>s. s) 0 observed idleWorld exampleMemory),
              fst (snd (verifyResults_mem (\<lambda>s. s) 0 observed idleWorld exampleMemory)),
              snd (snd (verifyResults_mem (\<lambda>s. s) 0 observed idleWorld exampleMemory)))"
    by simp
  from verification_memory [OF i r] i o n s show ?thesis by simp
qed


text \<open>
  The slice of observed values holds 2, 1 before the verification and 1, 2 after it, in
  the array where it lies. Likewise the slice \<^verbatim>\<open>executeRecord\<close> hands back to its
  caller, the one it got from the backend: the backend hands over 2, 1 and the slice
  holds 1, 2.
\<close>

theorem verification_memory_counterexample:
  "view exampleMemory observed = [''2'', ''1'']
   \<and> fst (verifyResults_mem (\<lambda>s. s) 0 observed idleWorld exampleMemory) = Inr ()
   \<and> view (snd (snd (verifyResults_mem (\<lambda>s. s) 0 observed idleWorld exampleMemory))) observed
       = [''1'', ''2'']
   \<and> arrays exampleMemory 2 = [''0'', ''2'', ''1'', ''3'']
   \<and> arrays (snd (snd (verifyResults_mem (\<lambda>s. s) 0 observed idleWorld exampleMemory))) 2
       = [''0'', ''1'', ''2'', ''3'']
   \<and> executeRecord (\<lambda>s. s) (fixedHarness ''mysql'' ''I'' [''2'', ''1''])
        (queryRecord ''I'' ValueSort [''1'', ''2'']) idleWorld
       = ((''I'', [''1'', ''2''], True, None), \<lparr>backend = (), printed = [(2, Ok)]\<rparr>)"
  by code_simp


end
